theory Spec2Isabelle
  imports Complex_Main
begin

section \<open>The pose-sequence matching engine of the disguise game\<close>

text \<open>
  The development embeds the classes \<open>SequenceMatcher\<close>, \<open>Player\<close> (its pose and matching
  fields) and \<open>Game.checkPlayerMatches\<close>. JavaScript numbers are modelled by \<open>real\<close>
  (confidence scores) and by \<open>nat\<close> and \<open>int\<close> (indices, counters and frame numbers). A value
  that may be \<open>null\<close> or \<open>undefined\<close> is an \<open>option\<close>; a call of a method on
  \<open>undefined\<close> is the error \<open>TypeError\<close>.

  The reward and the active decay are 0.25, which a double holds exactly, and every
  confidence is clamped by \<open>Math.min(1, _)\<close> or \<open>Math.max(0, _)\<close>; the concrete runs below
  pass through the values 0, 0.25, 0.5, 0.75 and 1 only, which doubles add and subtract
  without rounding.
\<close>

subsection \<open>Configuration: \<open>MATCHING_CONFIG\<close>\<close>

definition CONFIDENCE_MATCH :: real where
  "CONFIDENCE_MATCH = 0.25"

definition CONFIDENCE_DECAY_ACTIVE :: real where
  "CONFIDENCE_DECAY_ACTIVE = 0.25"

definition CONFIDENCE_DECAY_MIXED :: real where
  "CONFIDENCE_DECAY_MIXED = 0.1"

definition CONFIDENCE_DECAY_IDLE :: real where
  "CONFIDENCE_DECAY_IDLE = 0"

definition QUALITY_THRESHOLD_BUILD :: real where
  "QUALITY_THRESHOLD_BUILD = 0.1"

definition QUALITY_THRESHOLD_CONFIRM :: real where
  "QUALITY_THRESHOLD_CONFIRM = 0.35"

definition GRACE_PERIOD :: nat where
  "GRACE_PERIOD = 60"

definition MAX_HISTORY_LENGTH :: nat where
  "MAX_HISTORY_LENGTH = 120"

subsection \<open>Pose states\<close>

text \<open>The object \<open>Player.states\<close>, and every frame of a move sequence.\<close>

record PoseState =
  leftArmRaised :: bool
  rightArmRaised :: bool
  leftLegRaised :: bool
  rightLegRaised :: bool
  lampBlinking :: bool

text \<open>
  \<open>statesEqual\<close> and \<open>isActiveState\<close> start with \<open>if (!state) return false\<close>; an argument is
  therefore an optional pose, \<open>None\<close> standing for \<open>null\<close> and \<open>undefined\<close>.
\<close>

fun statesEqual :: "PoseState option \<Rightarrow> PoseState option \<Rightarrow> bool" where
  "statesEqual None state2 = False"
| "statesEqual (Some state1) None = False"
| "statesEqual (Some state1) (Some state2) =
     (leftArmRaised state1 = leftArmRaised state2 \<and>
      rightArmRaised state1 = rightArmRaised state2 \<and>
      leftLegRaised state1 = leftLegRaised state2 \<and>
      rightLegRaised state1 = rightLegRaised state2)"

fun isActiveState :: "PoseState option \<Rightarrow> bool" where
  "isActiveState None = False"
| "isActiveState (Some state) =
     (leftArmRaised state \<or> rightArmRaised state \<or>
      leftLegRaised state \<or> rightLegRaised state)"

text \<open>Reading an array at an index: \<open>undefined\<close> beyond its end.\<close>

definition at_index :: "'a list \<Rightarrow> nat \<Rightarrow> 'a option" where
  "at_index xs i = (if i < length xs then Some (xs ! i) else None)"

subsection \<open>The class \<open>SequenceMatcher\<close>\<close>

text \<open>\<open>lastMatchFrame\<close> is \<open>-Infinity\<close> or a frame number.\<close>

datatype frame_stamp = NegInfinity | Frame int

record SequenceMatcher =
  sequence :: "PoseState list"
  sequenceLength :: nat
  uniqueStates :: "PoseState list"
  statePatternLength :: nat
  matchPosition :: nat
  cyclesCompleted :: nat
  confidenceScore :: real
  lastMatchFrame :: frame_stamp
  isActive :: bool

text \<open>
  \<open>extractUniqueStates\<close>: the loop over \<open>i = 1 ..\<close> pushes every frame that differs from the
  last one pushed.
\<close>

fun uniqueLoop :: "PoseState list \<Rightarrow> PoseState list \<Rightarrow> PoseState list" where
  "uniqueLoop [] unique = unique"
| "uniqueLoop (s # rest) unique =
     (if \<not> statesEqual (Some s) (at_index unique (length unique - 1))
      then uniqueLoop rest (unique @ [s])
      else uniqueLoop rest unique)"

definition extractUniqueStates :: "PoseState list \<Rightarrow> PoseState list" where
  "extractUniqueStates sq = (case sq of [] \<Rightarrow> [] | s0 # rest \<Rightarrow> uniqueLoop rest [s0])"

text \<open>
  \<open>calculatePatternLength\<close>: the least \<open>len\<close> with \<open>len \<le> length / 2\<close> such that every frame
  equals the one at \<open>i % len\<close>, or the whole length.
\<close>

definition isPattern :: "PoseState list \<Rightarrow> nat \<Rightarrow> bool" where
  "isPattern sq len =
     list_all (\<lambda>i. statesEqual (Some (sq ! i)) (Some (sq ! (i mod len)))) [0..<length sq]"

function patternLoop :: "PoseState list \<Rightarrow> nat \<Rightarrow> nat" where
  "patternLoop sq len =
     (if 2 * len \<le> length sq
      then (if isPattern sq len then len else patternLoop sq (Suc len))
      else length sq)"
  by pat_completeness auto
termination
  by (relation "measure (\<lambda>(sq, len). Suc (length sq) - len)") auto

declare patternLoop.simps [simp del]

definition calculatePatternLength :: "PoseState list \<Rightarrow> nat" where
  "calculatePatternLength sq = (if length sq \<le> 1 then 1 else patternLoop sq 1)"

text \<open>The constructor.\<close>

definition new_SequenceMatcher :: "PoseState list \<Rightarrow> SequenceMatcher" where
  "new_SequenceMatcher enemySequenceFrames =
     \<lparr> sequence = enemySequenceFrames,
       sequenceLength = length enemySequenceFrames,
       uniqueStates = extractUniqueStates enemySequenceFrames,
       statePatternLength = calculatePatternLength enemySequenceFrames,
       matchPosition = 0,
       cyclesCompleted = 0,
       confidenceScore = 0,
       lastMatchFrame = NegInfinity,
       isActive = False \<rparr>"

text \<open>
  \<open>findBestStartingPosition\<close>: the \<open>for\<close> loop from index \<open>i\<close> on; the result is an index
  or \<open>-1\<close>.
\<close>

function findLoop :: "PoseState option \<Rightarrow> PoseState list \<Rightarrow> nat \<Rightarrow> int" where
  "findLoop playerState sq i =
     (if i < length sq
      then (if isActiveState (Some (sq ! i)) \<and> statesEqual playerState (Some (sq ! i))
            then int i
            else findLoop playerState sq (Suc i))
      else - 1)"
  by pat_completeness auto
termination
  by (relation "measure (\<lambda>(playerState, sq, i). length sq - i)") auto

declare findLoop.simps [simp del]

definition findBestStartingPosition :: "PoseState option \<Rightarrow> SequenceMatcher \<Rightarrow> int" where
  "findBestStartingPosition playerState m =
     (if \<not> isActiveState playerState then - 1 else findLoop playerState (sequence m) 0)"

text \<open>
  \<open>updateMatch\<close> returns its boolean together with the matcher as the call leaves it.
\<close>

definition updateMatch ::
  "PoseState option \<Rightarrow> int \<Rightarrow> SequenceMatcher \<Rightarrow> bool \<times> SequenceMatcher" where
  "updateMatch playerState frameNumber m =
     (let expectedState = at_index (sequence m) (matchPosition m) in
      if statesEqual playerState expectedState then
        (True, m\<lparr> confidenceScore := min 1 (confidenceScore m + CONFIDENCE_MATCH),
                  lastMatchFrame := Frame frameNumber,
                  isActive := True \<rparr>)
      else if \<not> isActiveState playerState \<and> \<not> isActiveState expectedState then
        (True, m\<lparr> lastMatchFrame := Frame frameNumber,
                  confidenceScore := max 0 (confidenceScore m - CONFIDENCE_DECAY_IDLE) \<rparr>)
      else if isActiveState playerState \<and> isActiveState expectedState then
        (False, m\<lparr> confidenceScore := max 0 (confidenceScore m - CONFIDENCE_DECAY_ACTIVE),
                   isActive := False \<rparr>)
      else
        (True, m\<lparr> confidenceScore := max 0 (confidenceScore m - CONFIDENCE_DECAY_MIXED) \<rparr>))"

definition advancePosition :: "SequenceMatcher \<Rightarrow> SequenceMatcher" where
  "advancePosition m =
     (let m1 = m\<lparr> matchPosition := matchPosition m + 1 \<rparr> in
      if matchPosition m1 \<ge> sequenceLength m1
      then m1\<lparr> matchPosition := 0, cyclesCompleted := cyclesCompleted m1 + 1 \<rparr>
      else m1)"

definition reset :: "SequenceMatcher \<Rightarrow> SequenceMatcher" where
  "reset m = m\<lparr> matchPosition := 0, cyclesCompleted := 0, confidenceScore := 0,
               lastMatchFrame := NegInfinity, isActive := False \<rparr>"

definition getMatchQuality :: "SequenceMatcher \<Rightarrow> real" where
  "getMatchQuality m = confidenceScore m"

definition isFullCycleComplete :: "SequenceMatcher \<Rightarrow> bool" where
  "isFullCycleComplete m = (cyclesCompleted m > 0 \<and> matchPosition m = 0)"

text \<open>
  The arbitrator's step on one matcher, written three times in \<open>checkPlayerMatches\<close>:
  \<open>const matched = matcher.updateMatch(playerState, frameCounter);
  if (matched) matcher.advancePosition();\<close>
\<close>

definition updateAndAdvance :: "PoseState option \<Rightarrow> int \<Rightarrow> SequenceMatcher \<Rightarrow> SequenceMatcher" where
  "updateAndAdvance playerState frameNumber m =
     (case updateMatch playerState frameNumber m of
        (matched, m1) \<Rightarrow> if matched then advancePosition m1 else m1)"

text \<open>A run of \<open>updateMatch\<close> calls, and a run of arbitrator steps, on one matcher.\<close>

fun updateMatches :: "(PoseState option \<times> int) list \<Rightarrow> SequenceMatcher \<Rightarrow> SequenceMatcher" where
  "updateMatches [] m = m"
| "updateMatches ((playerState, frameNumber) # rest) m =
     updateMatches rest (snd (updateMatch playerState frameNumber m))"

fun feedFrames :: "(PoseState \<times> int) list \<Rightarrow> SequenceMatcher \<Rightarrow> SequenceMatcher" where
  "feedFrames [] m = m"
| "feedFrames ((playerState, frameNumber) # rest) m =
     feedFrames rest (updateAndAdvance (Some playerState) frameNumber m)"

text \<open>
  The predicate the search loop of \<open>findBestStartingPosition\<close> tests at index \<open>i\<close>: the
  reference frame there is active and equal to the player's pose.
\<close>

definition startsAt :: "PoseState option \<Rightarrow> PoseState list \<Rightarrow> nat \<Rightarrow> bool" where
  "startsAt playerState sq i =
     (isActiveState (Some (sq ! i)) \<and> statesEqual playerState (Some (sq ! i)))"

subsection \<open>Enemies and the player\<close>

text \<open>
  Of \<open>MoveSequence\<close> and \<open>Enemy\<close> the arbitrator reads \<open>frames\<close>, \<open>id\<close> and \<open>bodyColor\<close>,
  which are never written after construction; positions, velocities and the animation
  cursor are left out. The player's fields \<open>currentMatchingEnemy\<close> and
  \<open>confirmedMatchEnemy\<close> hold an enemy or \<open>null\<close>; the only comparison of them,
  \<open>bestEnemy === confirmedMatchEnemy\<close>, is made after \<open>bestEnemy\<close> was assigned from that
  very field, so a reference is modelled by the enemy's value.
\<close>

record MoveSequence =
  frames :: "PoseState list"
  id_seq :: string

record Enemy =
  bodyColor_enemy :: string
  moveSequence :: MoveSequence

record Player =
  bodyColor :: string
  headColor :: string
  originalColor :: string
  states :: PoseState
  blinkTimer :: nat
  moveHistory :: "PoseState list"
  maxHistoryLength :: nat
  frameCounter :: int
  sequenceMatchers :: "string \<rightharpoonup> SequenceMatcher"
  currentMatchingEnemy :: "Enemy option"
  confirmedMatchEnemy :: "Enemy option"
  graceFrames :: nat
  gracePeriod :: nat

record Game =
  player :: Player
  enemies :: "Enemy list"
  frameNumber :: int

datatype js_error = TypeError

definition new_Player :: Player where
  "new_Player =
     \<lparr> bodyColor = ''#00ffcc'', headColor = ''#00ffcc'', originalColor = ''#00ffcc'',
       states = \<lparr> leftArmRaised = False, rightArmRaised = False, leftLegRaised = False,
                  rightLegRaised = False, lampBlinking = False \<rparr>,
       blinkTimer = 0,
       moveHistory = [],
       maxHistoryLength = MAX_HISTORY_LENGTH,
       frameCounter = 0,
       sequenceMatchers = Map.empty,
       currentMatchingEnemy = None,
       confirmedMatchEnemy = None,
       graceFrames = 0,
       gracePeriod = GRACE_PERIOD \<rparr>"

definition morphToColor :: "string \<Rightarrow> Player \<Rightarrow> Player" where
  "morphToColor newColor pl = pl\<lparr> bodyColor := newColor, headColor := newColor \<rparr>"

definition recordMove :: "Player \<Rightarrow> Player" where
  "recordMove pl =
     (let pl1 = pl\<lparr> moveHistory := moveHistory pl @ [states pl] \<rparr> in
      if length (moveHistory pl1) > maxHistoryLength pl1
      then pl1\<lparr> moveHistory := tl (moveHistory pl1) \<rparr>
      else pl1)"

text \<open>
  \<open>Player.update\<close> without its movement and ground check, which write only the position
  and velocity: the lamp timer, then \<open>recordMove\<close>.
\<close>

definition Player_update :: "Player \<Rightarrow> Player" where
  "Player_update pl =
     recordMove
       (if blinkTimer pl > 0 then pl\<lparr> blinkTimer := blinkTimer pl - 1 \<rparr>
        else pl\<lparr> states := (states pl)\<lparr> lampBlinking := False \<rparr> \<rparr>)"

subsection \<open>\<open>Game.checkPlayerMatches\<close>\<close>

text \<open>The first loop: a matcher for every enemy whose sequence id has none yet.\<close>

fun initMatchers ::
  "Enemy list \<Rightarrow> (string \<rightharpoonup> SequenceMatcher) \<Rightarrow> (string \<rightharpoonup> SequenceMatcher)" where
  "initMatchers [] ms = ms"
| "initMatchers (enemy # rest) ms =
     initMatchers rest
       (if ms (id_seq (moveSequence enemy)) = None
        then ms(id_seq (moveSequence enemy) \<mapsto> new_SequenceMatcher (frames (moveSequence enemy)))
        else ms)"

text \<open>
  The branches for a confirmed and for a current enemy: its matcher is updated and becomes
  the best one. \<open>sequenceMatchers.get\<close> gives \<open>undefined\<close> for an unknown id, and the call of
  \<open>updateMatch\<close> on it throws.
\<close>

definition trackEnemy ::
  "PoseState \<Rightarrow> int \<Rightarrow> (string \<rightharpoonup> SequenceMatcher) \<Rightarrow> Enemy
   \<Rightarrow> js_error + ((string \<rightharpoonup> SequenceMatcher) \<times> Enemy option \<times> real)" where
  "trackEnemy playerState frameNo ms enemy =
     (case ms (id_seq (moveSequence enemy)) of
        None \<Rightarrow> Inl TypeError
      | Some matcher \<Rightarrow>
          (let matcher1 = updateAndAdvance (Some playerState) frameNo matcher
           in Inr (ms(id_seq (moveSequence enemy) \<mapsto> matcher1), Some enemy,
                   getMatchQuality matcher1)))"

text \<open>
  The branch without a tracked enemy: the loop over all enemies, carrying the matchers,
  \<open>bestEnemy\<close> and \<open>bestMatchQuality\<close>.
\<close>

fun searchEnemies ::
  "PoseState \<Rightarrow> int \<Rightarrow> Enemy list
   \<Rightarrow> (string \<rightharpoonup> SequenceMatcher) \<times> Enemy option \<times> real
   \<Rightarrow> js_error + ((string \<rightharpoonup> SequenceMatcher) \<times> Enemy option \<times> real)" where
  "searchEnemies playerState frameNo [] acc = Inr acc"
| "searchEnemies playerState frameNo (enemy # rest) (ms, bestEnemy, bestMatchQuality) =
     (case ms (id_seq (moveSequence enemy)) of
        None \<Rightarrow> Inl TypeError
      | Some matcher \<Rightarrow>
          (let startPos = findBestStartingPosition (Some playerState) matcher in
           if startPos \<noteq> - 1 then
             (let matcher1 = updateAndAdvance (Some playerState) frameNo
                               ((reset matcher)\<lparr> matchPosition := nat startPos \<rparr>);
                  ms1 = ms(id_seq (moveSequence enemy) \<mapsto> matcher1);
                  quality = getMatchQuality matcher1
              in if quality > bestMatchQuality
                 then searchEnemies playerState frameNo rest (ms1, Some enemy, quality)
                 else searchEnemies playerState frameNo rest (ms1, bestEnemy, bestMatchQuality))
           else searchEnemies playerState frameNo rest (ms, bestEnemy, bestMatchQuality)))"

text \<open>The part after the comment \<open>Handle state transitions\<close>.\<close>

definition handleTransitions :: "Player \<Rightarrow> Enemy option \<Rightarrow> real \<Rightarrow> js_error + Player" where
  "handleTransitions pl bestEnemy bestMatchQuality =
     (case confirmedMatchEnemy pl of
        Some confirmed \<Rightarrow>
          (if bestEnemy = Some confirmed \<and> bestMatchQuality > QUALITY_THRESHOLD_CONFIRM
           then Inr (morphToColor (bodyColor_enemy confirmed) (pl\<lparr> graceFrames := 0 \<rparr>))
           else
             (let pl1 = pl\<lparr> graceFrames := graceFrames pl + 1 \<rparr> in
              if graceFrames pl1 < gracePeriod pl1
              then Inr (morphToColor (bodyColor_enemy confirmed) pl1)
              else Inr ((morphToColor (originalColor pl1)
                           (pl1\<lparr> confirmedMatchEnemy := None, currentMatchingEnemy := None \<rparr>))
                        \<lparr> sequenceMatchers := map_option reset \<circ> sequenceMatchers pl1 \<rparr>)))
      | None \<Rightarrow>
          (case bestEnemy of
             None \<Rightarrow> Inr (morphToColor (originalColor pl) (pl\<lparr> currentMatchingEnemy := None \<rparr>))
           | Some best \<Rightarrow>
               (if bestMatchQuality > QUALITY_THRESHOLD_BUILD then
                  (case sequenceMatchers pl (id_seq (moveSequence best)) of
                     None \<Rightarrow> Inl TypeError
                   | Some matcher \<Rightarrow>
                       (if cyclesCompleted matcher > 0
                        then Inr (morphToColor (bodyColor_enemy best)
                                    (pl\<lparr> confirmedMatchEnemy := Some best,
                                         currentMatchingEnemy := Some best,
                                         graceFrames := 0 \<rparr>))
                        else Inr (morphToColor (bodyColor_enemy best)
                                    (pl\<lparr> currentMatchingEnemy := Some best \<rparr>))))
                else Inr (morphToColor (originalColor pl)
                            (pl\<lparr> currentMatchingEnemy := None \<rparr>)))))"

definition checkPlayerMatches :: "Game \<Rightarrow> js_error + Game" where
  "checkPlayerMatches g =
     (let pl = player g in
      if length (moveHistory pl) < 5 then Inr g
      else
        (let playerState = states pl;
             ms0 = initMatchers (enemies g) (sequenceMatchers pl);
             tracked =
               (case confirmedMatchEnemy pl of
                  Some enemy \<Rightarrow> trackEnemy playerState (frameCounter pl) ms0 enemy
                | None \<Rightarrow>
                    (case currentMatchingEnemy pl of
                       Some enemy \<Rightarrow> trackEnemy playerState (frameCounter pl) ms0 enemy
                     | None \<Rightarrow>
                         searchEnemies playerState (frameCounter pl) (enemies g) (ms0, None, 0)))
         in case tracked of
              Inl err \<Rightarrow> Inl err
            | Inr (ms1, bestEnemy, bestMatchQuality) \<Rightarrow>
                (case handleTransitions (pl\<lparr> sequenceMatchers := ms1 \<rparr>) bestEnemy bestMatchQuality of
                   Inl err \<Rightarrow> Inl err
                 | Inr pl1 \<Rightarrow> Inr (g\<lparr> player := pl1 \<rparr>))))"

text \<open>
  One tick of \<open>Game.update\<close> in which the input handler has left the player in the pose
  \<open>pose\<close>: \<open>player.update\<close>, the two frame counters, \<open>checkPlayerMatches\<close>. A list of poses
  is a run of ticks.
\<close>

definition Game_update :: "PoseState \<Rightarrow> Game \<Rightarrow> js_error + Game" where
  "Game_update pose g =
     (let pl1 = Player_update ((player g)\<lparr> states := pose \<rparr>);
          g1 = g\<lparr> player := pl1\<lparr> frameCounter := frameCounter pl1 + 1 \<rparr>,
                  frameNumber := frameNumber g + 1 \<rparr>
      in checkPlayerMatches g1)"

fun injectFrames :: "PoseState list \<Rightarrow> Game \<Rightarrow> js_error + Game" where
  "injectFrames [] g = Inr g"
| "injectFrames (pose # rest) g =
     (case Game_update pose g of Inl err \<Rightarrow> Inl err | Inr g1 \<Rightarrow> injectFrames rest g1)"

text \<open>
  An enemy starts a match for a pose when its matcher finds a starting position; the
  arbitrator asks this of every enemy when it tracks none.
\<close>

definition hasStart :: "PoseState \<Rightarrow> (string \<rightharpoonup> SequenceMatcher) \<Rightarrow> Enemy \<Rightarrow> bool" where
  "hasStart playerState ms enemy =
     (case ms (id_seq (moveSequence enemy)) of
        None \<Rightarrow> False
      | Some matcher \<Rightarrow> findBestStartingPosition (Some playerState) matcher \<noteq> - 1)"

text \<open>The state \<open>checkPlayerMatches\<close> is called on in a tick with pose \<open>pose\<close>.\<close>

definition beforeCheck :: "PoseState \<Rightarrow> Game \<Rightarrow> Game" where
  "beforeCheck pose g =
     g\<lparr> player := (Player_update ((player g)\<lparr> states := pose \<rparr>))
           \<lparr> frameCounter := frameCounter (Player_update ((player g)\<lparr> states := pose \<rparr>)) + 1 \<rparr>,
        frameNumber := frameNumber g + 1 \<rparr>"

text \<open>
  The state the \<open>Game\<close> constructor leaves, for a given list of enemies in place of the three
  that \<open>createEnemies\<close> builds.
\<close>

definition newGame :: "Enemy list \<Rightarrow> Game" where
  "newGame es = \<lparr> player = new_Player, enemies = es, frameNumber = 0 \<rparr>"

text \<open>The confirmed enemy after a run of ticks.\<close>

definition confirmedAfter :: "PoseState list \<Rightarrow> Game \<Rightarrow> js_error + Enemy option" where
  "confirmedAfter poses g =
     (case injectFrames poses g of Inl err \<Rightarrow> Inl err
      | Inr g1 \<Rightarrow> Inr (confirmedMatchEnemy (player g1)))"

subsection \<open>Poses of the patterns in \<open>createEnemies\<close>\<close>

definition idlePose :: PoseState where
  "idlePose = \<lparr> leftArmRaised = False, rightArmRaised = False, leftLegRaised = False,
                rightLegRaised = False, lampBlinking = False \<rparr>"

definition leftArmPose :: PoseState where
  "leftArmPose = \<lparr> leftArmRaised = True, rightArmRaised = False, leftLegRaised = False,
                   rightLegRaised = False, lampBlinking = False \<rparr>"

definition rightLegPose :: PoseState where
  "rightLegPose = \<lparr> leftArmRaised = False, rightArmRaised = False, leftLegRaised = False,
                    rightLegRaised = True, lampBlinking = False \<rparr>"

subsection \<open>Enemies and game states used as concrete inputs\<close>

text \<open>
  Enemies over the authored patterns of \<open>createEnemies\<close>, each frame once; \<open>lateArmEnemy\<close>
  has its active frame last.
\<close>

definition armEnemy :: Enemy where
  "armEnemy = \<lparr> bodyColor_enemy = ''#ff00ff'',
      moveSequence = \<lparr> frames = [leftArmPose, idlePose], id_seq = ''enemy1'' \<rparr> \<rparr>"

definition legEnemy :: Enemy where
  "legEnemy = \<lparr> bodyColor_enemy = ''#ff8800'',
      moveSequence = \<lparr> frames = [rightLegPose, idlePose], id_seq = ''enemy2'' \<rparr> \<rparr>"

definition lateArmEnemy :: Enemy where
  "lateArmEnemy = \<lparr> bodyColor_enemy = ''#00ffff'',
      moveSequence = \<lparr> frames = [idlePose, leftArmPose], id_seq = ''enemy3'' \<rparr> \<rparr>"

text \<open>
  The matcher of \<open>armEnemy\<close> at position 0 after some accepted frames, and two states of a
  game with \<open>armEnemy\<close> confirmed: right after its first cycle, and after its second.
\<close>

definition armMatcher :: "nat \<Rightarrow> real \<Rightarrow> int \<Rightarrow> SequenceMatcher" where
  "armMatcher cycles quality frame =
     (new_SequenceMatcher [leftArmPose, idlePose])
       \<lparr> cyclesCompleted := cycles, confidenceScore := quality,
         lastMatchFrame := Frame frame, isActive := True \<rparr>"

definition justConfirmedGame :: Game where
  "justConfirmedGame =
     \<lparr> player = new_Player
         \<lparr> bodyColor := ''#ff00ff'', headColor := ''#ff00ff'',
           moveHistory := [idlePose, idlePose, idlePose, idlePose, leftArmPose, idlePose],
           frameCounter := 6,
           sequenceMatchers := [''enemy1'' \<mapsto> armMatcher 1 (1 / 2) 6],
           currentMatchingEnemy := Some armEnemy,
           confirmedMatchEnemy := Some armEnemy \<rparr>,
       enemies = [armEnemy], frameNumber = 6 \<rparr>"

definition fullConfidenceGame :: Game where
  "fullConfidenceGame =
     \<lparr> player = new_Player
         \<lparr> bodyColor := ''#ff00ff'', headColor := ''#ff00ff'',
           moveHistory := [idlePose, idlePose, idlePose, idlePose,
                           leftArmPose, idlePose, leftArmPose, idlePose],
           frameCounter := 8,
           sequenceMatchers := [''enemy1'' \<mapsto> armMatcher 2 1 8],
           currentMatchingEnemy := Some armEnemy,
           confirmedMatchEnemy := Some armEnemy \<rparr>,
       enemies = [armEnemy], frameNumber = 8 \<rparr>"

text \<open>A state past the warm-up in which no enemy is tracked and the player raises the left arm.\<close>

definition searchGame :: Game where
  "searchGame =
     \<lparr> player = new_Player
         \<lparr> states := leftArmPose,
           moveHistory := [idlePose, idlePose, idlePose, idlePose, leftArmPose],
           frameCounter := 5 \<rparr>,
       enemies = [legEnemy, armEnemy, lateArmEnemy], frameNumber = 5 \<rparr>"

section \<open>Properties of the poses\<close>

text \<open>
  C8. A comparison with an absent pose never matches and an absent pose is never active:
  \<open>statesEqual\<close> gives \<open>false\<close> as soon as one of its arguments is \<open>null\<close>, for every pose \<open>s\<close>
  on the other side, and \<open>isActiveState(null)\<close> is \<open>false\<close>. Both functions are total.
\<close>

theorem null_pose_never_matches:
  "statesEqual None (Some s) = False \<and> statesEqual (Some s) None = False \<and>
   statesEqual None None = False \<and> isActiveState None = False"
  by simp

text \<open>
  C9. Equality of poses is reflexive on every pose, symmetric on all arguments, and does
  not depend on the \<open>lampBlinking\<close> field of either argument: overwriting that field by any
  functions \<open>fa\<close> and \<open>fb\<close> leaves the result as it is.
\<close>

theorem statesEqual_reflexive_symmetric_ignores_lamp:
  "statesEqual (Some s) (Some s) \<and>
   statesEqual a b = statesEqual b a \<and>
   statesEqual (map_option (lampBlinking_update fa) a) (map_option (lampBlinking_update fb) b)
     = statesEqual a b"
  by (cases a; cases b) auto

lemma statesEqual_lamp [simp]:
  "statesEqual (Some (p\<lparr> lampBlinking := b \<rparr>)) e = statesEqual (Some p) e"
  by (cases e) simp_all

lemma isActiveState_lamp [simp]:
  "isActiveState (Some (p\<lparr> lampBlinking := b \<rparr>)) = isActiveState (Some p)"
  by simp

text \<open>Two idle poses are equal, so the first case of \<open>updateMatch\<close> takes them.\<close>

lemma idle_poses_equal:
  "\<not> isActiveState (Some p) \<Longrightarrow> \<not> isActiveState (Some e) \<Longrightarrow> statesEqual (Some p) (Some e)"
  by simp

section \<open>Properties of \<open>SequenceMatcher\<close>\<close>

text \<open>
  C1. \<open>updateMatch(p, f)\<close> takes the first applicable of four cases, \<open>expected\<close> being the
  reference frame at \<open>matchPosition\<close> (absent, hence neither equal nor active, when the
  position is beyond the sequence) and \<open>c\<close> the confidence before the call:
  equal poses add the reward, clamped to 1, set \<open>lastMatchFrame\<close> to \<open>f\<close> and \<open>isActive\<close>, and
  return true; otherwise two idle poses set \<open>lastMatchFrame\<close> to \<open>f\<close>, subtract the idle
  decay clamped at 0 and return true; otherwise two active poses subtract the active
  decay clamped at 0, clear \<open>isActive\<close> and return false; otherwise exactly one of the two
  is active, the mixed decay is subtracted clamped at 0 and the call returns true. One of
  the four cases always applies, and \<open>matchPosition\<close>, \<open>cyclesCompleted\<close> and the sequence are
  unchanged in every case.
\<close>

theorem updateMatch_four_cases:
  fixes m :: SequenceMatcher and p :: PoseState and f :: int
  assumes "expected = at_index (sequence m) (matchPosition m)"
    and "c = confidenceScore m"
  shows
   "(statesEqual (Some p) expected \<longrightarrow>
       updateMatch (Some p) f m =
         (True, m\<lparr> confidenceScore := min 1 (c + CONFIDENCE_MATCH),
                    lastMatchFrame := Frame f, isActive := True \<rparr>)) \<and>
    (\<not> statesEqual (Some p) expected \<and> \<not> isActiveState (Some p) \<and> \<not> isActiveState expected \<longrightarrow>
       updateMatch (Some p) f m =
         (True, m\<lparr> lastMatchFrame := Frame f,
                    confidenceScore := max 0 (c - CONFIDENCE_DECAY_IDLE) \<rparr>)) \<and>
    (\<not> statesEqual (Some p) expected \<and> isActiveState (Some p) \<and> isActiveState expected \<longrightarrow>
       updateMatch (Some p) f m =
         (False, m\<lparr> confidenceScore := max 0 (c - CONFIDENCE_DECAY_ACTIVE),
                     isActive := False \<rparr>)) \<and>
    (\<not> statesEqual (Some p) expected \<and> isActiveState (Some p) \<noteq> isActiveState expected \<longrightarrow>
       updateMatch (Some p) f m =
         (True, m\<lparr> confidenceScore := max 0 (c - CONFIDENCE_DECAY_MIXED) \<rparr>)) \<and>
    (statesEqual (Some p) expected \<or>
     (\<not> isActiveState (Some p) \<and> \<not> isActiveState expected) \<or>
     (isActiveState (Some p) \<and> isActiveState expected) \<or>
     isActiveState (Some p) \<noteq> isActiveState expected) \<and>
    matchPosition (snd (updateMatch (Some p) f m)) = matchPosition m \<and>
    cyclesCompleted (snd (updateMatch (Some p) f m)) = cyclesCompleted m \<and>
    sequence (snd (updateMatch (Some p) f m)) = sequence m"
  using assms by (auto simp: updateMatch_def Let_def)

theorem updateMatch_four_cases_witness:
  "updateMatch (Some leftArmPose) 7 (new_SequenceMatcher [leftArmPose, idlePose])
     = (True, (new_SequenceMatcher [leftArmPose, idlePose])
                \<lparr> confidenceScore := min 1 (0 + CONFIDENCE_MATCH),
                  lastMatchFrame := Frame 7, isActive := True \<rparr>) \<and>
   updateMatch (Some idlePose) 7 ((new_SequenceMatcher [leftArmPose, idlePose])\<lparr> matchPosition := 2 \<rparr>)
     = (True, (new_SequenceMatcher [leftArmPose, idlePose])
                \<lparr> matchPosition := 2, lastMatchFrame := Frame 7,
                  confidenceScore := max 0 (0 - CONFIDENCE_DECAY_IDLE) \<rparr>) \<and>
   updateMatch (Some rightLegPose) 7 (new_SequenceMatcher [leftArmPose, idlePose])
     = (False, (new_SequenceMatcher [leftArmPose, idlePose])
                 \<lparr> confidenceScore := max 0 (0 - CONFIDENCE_DECAY_ACTIVE), isActive := False \<rparr>) \<and>
   updateMatch (Some idlePose) 7 (new_SequenceMatcher [leftArmPose, idlePose])
     = (True, (new_SequenceMatcher [leftArmPose, idlePose])
                \<lparr> confidenceScore := max 0 (0 - CONFIDENCE_DECAY_MIXED) \<rparr>)"
proof -
  let ?m = "new_SequenceMatcher [leftArmPose, idlePose]"
  have m: "sequence ?m = [leftArmPose, idlePose]" "matchPosition ?m = 0" "confidenceScore ?m = 0"
    by (simp_all add: new_SequenceMatcher_def)
  have e0: "at_index (sequence ?m) (matchPosition ?m) = Some leftArmPose"
    and e2: "at_index (sequence (?m\<lparr> matchPosition := 2 \<rparr>)) (matchPosition (?m\<lparr> matchPosition := 2 \<rparr>)) = None"
    by (simp_all add: m at_index_def)
  have c2: "0 = confidenceScore (?m\<lparr> matchPosition := 2 \<rparr>)"
    by (simp add: m)
  have "statesEqual (Some leftArmPose) (Some leftArmPose)"
    and "\<not> statesEqual (Some idlePose) None \<and> \<not> isActiveState (Some idlePose) \<and> \<not> isActiveState None"
    and "\<not> statesEqual (Some rightLegPose) (Some leftArmPose) \<and> isActiveState (Some rightLegPose)
         \<and> isActiveState (Some leftArmPose)"
    and "\<not> statesEqual (Some idlePose) (Some leftArmPose)
         \<and> isActiveState (Some idlePose) \<noteq> isActiveState (Some leftArmPose)"
    by (simp_all add: leftArmPose_def idlePose_def rightLegPose_def)
  then show ?thesis
    using updateMatch_four_cases [OF e0 [symmetric] m(3) [symmetric], of leftArmPose 7]
      updateMatch_four_cases [OF e2 [symmetric] c2, of idlePose 7]
      updateMatch_four_cases [OF e0 [symmetric] m(3) [symmetric], of rightLegPose 7]
      updateMatch_four_cases [OF e0 [symmetric] m(3) [symmetric], of idlePose 7]
    by simp
qed

lemma updateMatch_confidence_bounds:
  assumes "0 \<le> confidenceScore m" "confidenceScore m \<le> 1"
  shows "0 \<le> confidenceScore (snd (updateMatch ps f m)) \<and>
         confidenceScore (snd (updateMatch ps f m)) \<le> 1"
  using assms
  by (auto simp: updateMatch_def Let_def CONFIDENCE_MATCH_def CONFIDENCE_DECAY_IDLE_def
      CONFIDENCE_DECAY_ACTIVE_def CONFIDENCE_DECAY_MIXED_def)

lemma updateMatches_confidence_bounds:
  "0 \<le> confidenceScore m \<Longrightarrow> confidenceScore m \<le> 1 \<Longrightarrow>
   0 \<le> confidenceScore (updateMatches inputs m) \<and> confidenceScore (updateMatches inputs m) \<le> 1"
proof (induction inputs arbitrary: m)
  case Nil
  then show ?case by simp
next
  case (Cons a inputs)
  obtain ps f where a: "a = (ps, f)" by (cases a)
  show ?case
    unfolding a updateMatches.simps
    by (rule Cons.IH) (use Cons.prems updateMatch_confidence_bounds in blast)+
qed

text \<open>
  C2. From the state the constructor leaves, and from the state \<open>reset\<close> leaves, any finite
  run of \<open>updateMatch\<close> calls, with any poses (absent ones included) and any frame numbers,
  ends with \<open>confidenceScore\<close> between 0 and 1.
\<close>

theorem confidenceScore_unit_interval:
  "0 \<le> confidenceScore (updateMatches inputs (new_SequenceMatcher sq)) \<and>
   confidenceScore (updateMatches inputs (new_SequenceMatcher sq)) \<le> 1 \<and>
   0 \<le> confidenceScore (updateMatches inputs (reset m)) \<and>
   confidenceScore (updateMatches inputs (reset m)) \<le> 1"
proof -
  have "confidenceScore (new_SequenceMatcher sq) = 0"
    by (simp add: new_SequenceMatcher_def)
  moreover have "confidenceScore (reset m) = 0"
    by (simp add: reset_def)
  ultimately show ?thesis
    using updateMatches_confidence_bounds [of "new_SequenceMatcher sq" inputs]
      updateMatches_confidence_bounds [of "reset m" inputs]
    by simp
qed

lemma findLoop_hit:
  "k \<le> i \<Longrightarrow> i < length sq \<Longrightarrow> startsAt ps sq i \<Longrightarrow>
   (\<forall>j. k \<le> j \<and> j < i \<longrightarrow> \<not> startsAt ps sq j) \<Longrightarrow> findLoop ps sq k = int i"
proof (induction "i - k" arbitrary: k)
  case 0
  then have "k = i" by simp
  with 0 show ?case by (simp add: findLoop.simps [of ps sq i] startsAt_def)
next
  case (Suc d)
  then have lt: "k < i" and "\<not> startsAt ps sq k" by auto
  moreover have "findLoop ps sq (Suc k) = int i"
    using Suc by (intro Suc.hyps(1)) auto
  ultimately show ?case
    using Suc.prems(2) by (simp add: findLoop.simps [of ps sq k] startsAt_def)
qed

lemma findLoop_miss:
  "(\<forall>j. k \<le> j \<and> j < length sq \<longrightarrow> \<not> startsAt ps sq j) \<Longrightarrow> findLoop ps sq k = - 1"
proof (induction ps sq k rule: findLoop.induct)
  case (1 ps sq i)
  show ?case
  proof (cases "i < length sq")
    case True
    then have "\<not> startsAt ps sq i" using "1.prems" by simp
    moreover from this have "findLoop ps sq (Suc i) = - 1"
      using True "1.prems" by (intro "1.IH") (auto simp: startsAt_def)
    ultimately show ?thesis
      using True by (simp add: findLoop.simps [of ps sq i] startsAt_def)
  next
    case False
    then show ?thesis by (simp add: findLoop.simps [of ps sq i])
  qed
qed

text \<open>
  C3. \<open>findBestStartingPosition\<close> returns \<open>-1\<close> for a pose that is not active. For an active
  pose it returns the least index whose reference frame is active and equal to the pose
  (an index with no such index before it), and \<open>-1\<close> when the sequence has no such index.
\<close>

theorem findBestStartingPosition_first_hit:
  "(\<not> isActiveState ps \<longrightarrow> findBestStartingPosition ps m = - 1) \<and>
   (isActiveState ps \<longrightarrow>
      (\<forall>i. i < length (sequence m) \<and> startsAt ps (sequence m) i \<and>
           (\<forall>j<i. \<not> startsAt ps (sequence m) j)
           \<longrightarrow> findBestStartingPosition ps m = int i) \<and>
      ((\<forall>i<length (sequence m). \<not> startsAt ps (sequence m) i)
           \<longrightarrow> findBestStartingPosition ps m = - 1))"
  using findLoop_hit [of 0 _ "sequence m" ps] findLoop_miss [of 0 "sequence m" ps]
  by (auto simp: findBestStartingPosition_def)

theorem findBestStartingPosition_first_hit_witness:
  "findBestStartingPosition (Some idlePose) (new_SequenceMatcher [idlePose, leftArmPose, leftArmPose]) = - 1 \<and>
   findBestStartingPosition (Some leftArmPose) (new_SequenceMatcher [idlePose, leftArmPose, leftArmPose]) = 1 \<and>
   findBestStartingPosition (Some rightLegPose) (new_SequenceMatcher [idlePose, leftArmPose, leftArmPose]) = - 1"
proof -
  let ?m = "new_SequenceMatcher [idlePose, leftArmPose, leftArmPose]"
  have sq: "sequence ?m = [idlePose, leftArmPose, leftArmPose]"
    by (simp add: new_SequenceMatcher_def)
  have idle: "\<not> isActiveState (Some idlePose)"
    by (simp add: idlePose_def)
  have arm: "isActiveState (Some leftArmPose)"
    "(1::nat) < length (sequence ?m) \<and> startsAt (Some leftArmPose) (sequence ?m) 1 \<and>
     (\<forall>j<1. \<not> startsAt (Some leftArmPose) (sequence ?m) j)"
    unfolding sq by (simp_all add: startsAt_def leftArmPose_def idlePose_def)
  have leg: "isActiveState (Some rightLegPose)"
    "\<forall>i<length (sequence ?m). \<not> startsAt (Some rightLegPose) (sequence ?m) i"
    unfolding sq by (simp_all add: startsAt_def leftArmPose_def idlePose_def rightLegPose_def
        less_Suc_eq numeral_3_eq_3)
  show ?thesis
    using findBestStartingPosition_first_hit [of "Some idlePose" ?m] idle
      findBestStartingPosition_first_hit [of "Some leftArmPose" ?m] arm
      findBestStartingPosition_first_hit [of "Some rightLegPose" ?m] leg
    by (metis of_nat_1)
qed

lemma feedFrames_append:
  "feedFrames (xs @ ys) m = feedFrames ys (feedFrames xs m)"
  by (induction xs arbitrary: m) auto

lemma updateAndAdvance_expected:
  assumes "matchPosition m < length (sequence m)" "sequenceLength m = length (sequence m)"
  shows "updateAndAdvance (Some (sequence m ! matchPosition m)) f m =
     m\<lparr> confidenceScore := min 1 (confidenceScore m + CONFIDENCE_MATCH),
        lastMatchFrame := Frame f, isActive := True,
        matchPosition := (if Suc (matchPosition m) < length (sequence m) then Suc (matchPosition m) else 0),
        cyclesCompleted := (if Suc (matchPosition m) < length (sequence m) then cyclesCompleted m
           else Suc (cyclesCompleted m)) \<rparr>"
  using assms
  by (simp add: updateAndAdvance_def updateMatch_def at_index_def advancePosition_def Let_def)

lemma feed_own_prefix:
  assumes "sequence m \<noteq> []" "sequenceLength m = length (sequence m)" "matchPosition m = 0"
    "cyclesCompleted m = 0" "confidenceScore m = 0" "length fs = length (sequence m)"
  shows "k \<le> length (sequence m) \<Longrightarrow>
    sequence (feedFrames (take k (zip (sequence m) fs)) m) = sequence m \<and>
    sequenceLength (feedFrames (take k (zip (sequence m) fs)) m) = length (sequence m) \<and>
    matchPosition (feedFrames (take k (zip (sequence m) fs)) m) = (if k < length (sequence m) then k else 0) \<and>
    cyclesCompleted (feedFrames (take k (zip (sequence m) fs)) m) = (if k < length (sequence m) then 0 else 1) \<and>
    confidenceScore (feedFrames (take k (zip (sequence m) fs)) m) = min 1 (real k * CONFIDENCE_MATCH)"
proof (induction k)
  case 0
  then show ?case using assms by (simp add: CONFIDENCE_MATCH_def)
next
  case (Suc k)
  let ?mk = "feedFrames (take k (zip (sequence m) fs)) m"
  have k: "k < length (sequence m)" using Suc.prems by simp
  have IH: "sequence ?mk = sequence m" "sequenceLength ?mk = length (sequence m)"
    "matchPosition ?mk = k" "cyclesCompleted ?mk = 0"
    "confidenceScore ?mk = min 1 (real k * CONFIDENCE_MATCH)"
    using Suc.IH k by simp_all
  have "take (Suc k) (zip (sequence m) fs) = take k (zip (sequence m) fs) @ [(sequence m ! k, fs ! k)]"
    using k assms(6) by (simp add: take_Suc_conv_app_nth)
  then have step: "feedFrames (take (Suc k) (zip (sequence m) fs)) m =
      updateAndAdvance (Some (sequence ?mk ! matchPosition ?mk)) (fs ! k) ?mk"
    by (simp add: feedFrames_append IH)
  have conf: "min 1 (min 1 (real k * CONFIDENCE_MATCH) + CONFIDENCE_MATCH) = min 1 (real (Suc k) * CONFIDENCE_MATCH)"
    by (simp add: CONFIDENCE_MATCH_def min_def algebra_simps)
  have pos: "matchPosition ?mk < length (sequence ?mk)" "sequenceLength ?mk = length (sequence ?mk)"
    using k IH by simp_all
  show ?case
    unfolding step updateAndAdvance_expected [OF pos]
    using conf by (simp add: IH)
qed

text \<open>
  C4. A matcher over a sequence of length \<open>N \<ge> 1\<close>, in its reset state at position 0, is fed
  its own frames in order, each by one \<open>updateMatch\<close> followed by \<open>advancePosition\<close> when the
  update returned true. After \<open>k < N\<close> frames it has completed no cycle and stands at
  position \<open>k\<close>, so every update was accepted; after the \<open>N\<close>-th it has completed exactly one
  cycle, stands at position 0 again and its confidence is \<open>min(1, N \<times> reward)\<close>.
\<close>

theorem own_sequence_completes_one_cycle:
  assumes "sequence m \<noteq> []" "sequenceLength m = length (sequence m)" "matchPosition m = 0"
    "cyclesCompleted m = 0" "confidenceScore m = 0" "length fs = length (sequence m)"
  shows "(\<forall>k < length (sequence m).
            cyclesCompleted (feedFrames (take k (zip (sequence m) fs)) m) = 0 \<and>
            matchPosition (feedFrames (take k (zip (sequence m) fs)) m) = k) \<and>
         cyclesCompleted (feedFrames (zip (sequence m) fs) m) = 1 \<and>
         matchPosition (feedFrames (zip (sequence m) fs) m) = 0 \<and>
         confidenceScore (feedFrames (zip (sequence m) fs) m)
           = min 1 (real (length (sequence m)) * CONFIDENCE_MATCH)"
proof -
  have "take (length (sequence m)) (zip (sequence m) fs) = zip (sequence m) fs"
    using assms(6) by simp
  then show ?thesis
    using feed_own_prefix [OF assms, of "length (sequence m)"]
      feed_own_prefix [OF assms]
    by auto
qed

theorem own_sequence_completes_one_cycle_witness:
  "cyclesCompleted (feedFrames [(leftArmPose, 5)] (new_SequenceMatcher [leftArmPose, idlePose])) = 0 \<and>
   matchPosition (feedFrames [(leftArmPose, 5)] (new_SequenceMatcher [leftArmPose, idlePose])) = 1 \<and>
   cyclesCompleted (feedFrames [(leftArmPose, 5), (idlePose, 6)]
      (new_SequenceMatcher [leftArmPose, idlePose])) = 1 \<and>
   matchPosition (feedFrames [(leftArmPose, 5), (idlePose, 6)]
      (new_SequenceMatcher [leftArmPose, idlePose])) = 0 \<and>
   confidenceScore (feedFrames [(leftArmPose, 5), (idlePose, 6)]
      (new_SequenceMatcher [leftArmPose, idlePose])) = 1 / 2"
proof -
  let ?m = "new_SequenceMatcher [leftArmPose, idlePose]"
  have m: "sequence ?m = [leftArmPose, idlePose]" "sequenceLength ?m = 2" "matchPosition ?m = 0"
    "cyclesCompleted ?m = 0" "confidenceScore ?m = 0"
    by (simp_all add: new_SequenceMatcher_def)
  have h: "sequence ?m \<noteq> []" "sequenceLength ?m = length (sequence ?m)"
    "length [5, 6 :: int] = length (sequence ?m)"
    by (simp_all add: m)
  note own = own_sequence_completes_one_cycle [OF h(1,2) m(3,4,5) h(3)]
  have z: "zip (sequence ?m) [5, 6 :: int] = [(leftArmPose, 5), (idlePose, 6)]"
    unfolding m by simp
  have t: "take 1 (zip (sequence ?m) [5, 6 :: int]) = [(leftArmPose, 5)]"
    unfolding z by simp
  have "(1::nat) < length (sequence ?m)"
    unfolding m by simp
  with own have "cyclesCompleted (feedFrames (take 1 (zip (sequence ?m) [5, 6])) ?m) = 0 \<and>
      matchPosition (feedFrames (take 1 (zip (sequence ?m) [5, 6])) ?m) = 1"
    by blast
  moreover have "min 1 (real (length (sequence ?m)) * CONFIDENCE_MATCH) = 1 / 2"
    unfolding m by (simp add: CONFIDENCE_MATCH_def)
  ultimately show ?thesis
    using own unfolding t z by simp
qed

section \<open>Properties of the arbitrator\<close>

lemma initMatchers_keeps:
  "ms k = Some m \<Longrightarrow> initMatchers es ms k = Some m"
proof (induction es arbitrary: ms)
  case Nil
  then show ?case by simp
next
  case (Cons a es)
  have "(if ms (id_seq (moveSequence a)) = None
         then ms(id_seq (moveSequence a) \<mapsto> new_SequenceMatcher (frames (moveSequence a)))
         else ms) k = Some m"
    using Cons.prems by auto
  then show ?case
    unfolding initMatchers.simps by (rule Cons.IH)
qed

lemma initMatchers_covers:
  "e \<in> set es \<Longrightarrow> initMatchers es ms (id_seq (moveSequence e)) \<noteq> None"
proof (induction es arbitrary: ms)
  case Nil
  then show ?case by simp
next
  case (Cons a es)
  show ?case
  proof (cases "e = a")
    case True
    have "\<exists>m. (if ms (id_seq (moveSequence a)) = None
        then ms(id_seq (moveSequence a) \<mapsto> new_SequenceMatcher (frames (moveSequence a)))
        else ms) (id_seq (moveSequence a)) = Some m"
      by auto
    then show ?thesis
      using True initMatchers_keeps by fastforce
  next
    case False
    then show ?thesis using Cons by simp
  qed
qed

lemma findLoop_found:
  "findLoop ps sq k \<noteq> - 1 \<Longrightarrow>
   \<exists>i. findLoop ps sq k = int i \<and> i < length sq \<and> startsAt ps sq i"
proof (induction ps sq k rule: findLoop.induct)
  case (1 ps sq i)
  show ?case
  proof (cases "i < length sq \<and> \<not> startsAt ps sq i")
    case True
    then have eq: "findLoop ps sq i = findLoop ps sq (Suc i)"
      by (auto simp: findLoop.simps [of ps sq i] startsAt_def)
    with "1.prems" have "findLoop ps sq (Suc i) \<noteq> - 1" by simp
    with True have "\<exists>j. findLoop ps sq (Suc i) = int j \<and> j < length sq \<and> startsAt ps sq j"
      by (intro "1.IH") (auto simp: startsAt_def)
    then show ?thesis by (simp add: eq)
  next
    case False
    show ?thesis
    proof (cases "i < length sq")
      case True
      with False have "startsAt ps sq i" by simp
      with True show ?thesis
        by (auto simp: findLoop.simps [of ps sq i] startsAt_def)
    next
      case False
      with "1.prems" show ?thesis
        by (simp add: findLoop.simps [of ps sq i])
    qed
  qed
qed

lemma fresh_start_is_perfect_match:
  assumes "findBestStartingPosition (Some p) m \<noteq> - 1"
  shows "updateMatch (Some p) f ((reset m)\<lparr> matchPosition := nat (findBestStartingPosition (Some p) m) \<rparr>)
    = (True, (reset m)\<lparr> matchPosition := nat (findBestStartingPosition (Some p) m),
                        confidenceScore := CONFIDENCE_MATCH,
                        lastMatchFrame := Frame f, isActive := True \<rparr>)"
proof -
  from assms have "findLoop (Some p) (sequence m) 0 \<noteq> - 1"
    and r: "findBestStartingPosition (Some p) m = findLoop (Some p) (sequence m) 0"
    by (auto simp: findBestStartingPosition_def split: if_splits)
  then obtain i where i: "findLoop (Some p) (sequence m) 0 = int i" "i < length (sequence m)"
    "startsAt (Some p) (sequence m) i"
    using findLoop_found by blast
  have "at_index (sequence (reset m)) i = Some (sequence m ! i)"
    using i(2) by (simp add: at_index_def reset_def)
  moreover have "statesEqual (Some p) (Some (sequence m ! i))"
    using i(3) by (simp add: startsAt_def)
  moreover have "confidenceScore (reset m) = 0"
    by (simp add: reset_def)
  ultimately show ?thesis
    unfolding r i(1) by (simp add: updateMatch_def CONFIDENCE_MATCH_def)
qed

lemma advancePosition_keeps:
  "confidenceScore (advancePosition m) = confidenceScore m"
  "sequence (advancePosition m) = sequence m"
  "sequenceLength (advancePosition m) = sequenceLength m"
  by (simp_all add: advancePosition_def Let_def)

lemma updateAndAdvance_sequence:
  "sequence (updateAndAdvance ps f m) = sequence m"
  by (simp add: updateAndAdvance_def updateMatch_def Let_def advancePosition_keeps)

lemma fresh_start_quality:
  assumes "findBestStartingPosition (Some p) m \<noteq> - 1"
  shows "confidenceScore (updateAndAdvance (Some p) f
     ((reset m)\<lparr> matchPosition := nat (findBestStartingPosition (Some p) m) \<rparr>)) = CONFIDENCE_MATCH"
  unfolding updateAndAdvance_def fresh_start_is_perfect_match [OF assms]
  by (simp add: advancePosition_keeps)

lemma findBestStartingPosition_sequence:
  "sequence m = sequence m' \<Longrightarrow> findBestStartingPosition ps m = findBestStartingPosition ps m'"
  by (simp add: findBestStartingPosition_def)

lemma hasStart_sequences:
  assumes "\<forall>k. map_option sequence (ms' k) = map_option sequence (ms k)"
  shows "hasStart p ms' e = hasStart p ms e"
proof -
  let ?k = "id_seq (moveSequence e)"
  from assms have "map_option sequence (ms' ?k) = map_option sequence (ms ?k)" by blast
  then show ?thesis
    by (cases "ms ?k"; cases "ms' ?k")
      (simp_all add: hasStart_def findBestStartingPosition_def)
qed

lemma searchEnemies_result:
  "\<forall>e\<in>set es. ms (id_seq (moveSequence e)) \<noteq> None \<Longrightarrow>
   \<exists>ms' best' q'. searchEnemies p f es (ms, best, q) = Inr (ms', best', q') \<and>
     (\<forall>k. map_option sequence (ms' k) = map_option sequence (ms k)) \<and>
     (\<forall>k m. ms k = Some m \<and> confidenceScore m = CONFIDENCE_MATCH
        \<longrightarrow> (\<exists>m'. ms' k = Some m' \<and> confidenceScore m' = CONFIDENCE_MATCH)) \<and>
     (\<forall>e\<in>set es. hasStart p ms e
        \<longrightarrow> (\<exists>m'. ms' (id_seq (moveSequence e)) = Some m' \<and> confidenceScore m' = CONFIDENCE_MATCH)) \<and>
     (best', q') =
        (if q < CONFIDENCE_MATCH
         then (case find (hasStart p ms) es of None \<Rightarrow> (best, q) | Some e \<Rightarrow> (Some e, CONFIDENCE_MATCH))
         else (best, q))"
proof (induction es arbitrary: ms best q)
  case Nil
  then show ?case by simp
next
  case (Cons a es)
  let ?k = "id_seq (moveSequence a)"
  from Cons.prems obtain m where m: "ms ?k = Some m" by auto
  show ?case
  proof (cases "findBestStartingPosition (Some p) m = - 1")
    case True
    then have nohit: "\<not> hasStart p ms a"
      by (simp add: hasStart_def m)
    have step: "searchEnemies p f (a # es) (ms, best, q) = searchEnemies p f es (ms, best, q)"
      using True by (simp add: m)
    from Cons.prems have "\<forall>e\<in>set es. ms (id_seq (moveSequence e)) \<noteq> None" by simp
    from Cons.IH [OF this, of best q] obtain ms' best' q' where
      r: "searchEnemies p f es (ms, best, q) = Inr (ms', best', q')"
      and sq: "\<forall>k. map_option sequence (ms' k) = map_option sequence (ms k)"
      and keep: "\<forall>k m. ms k = Some m \<and> confidenceScore m = CONFIDENCE_MATCH
        \<longrightarrow> (\<exists>m'. ms' k = Some m' \<and> confidenceScore m' = CONFIDENCE_MATCH)"
      and hits: "\<forall>e\<in>set es. hasStart p ms e
        \<longrightarrow> (\<exists>m'. ms' (id_seq (moveSequence e)) = Some m' \<and> confidenceScore m' = CONFIDENCE_MATCH)"
      and best: "(best', q') =
        (if q < CONFIDENCE_MATCH
         then (case find (hasStart p ms) es of None \<Rightarrow> (best, q) | Some e \<Rightarrow> (Some e, CONFIDENCE_MATCH))
         else (best, q))"
      by blast
    have "\<forall>e\<in>set (a # es). hasStart p ms e
        \<longrightarrow> (\<exists>m'. ms' (id_seq (moveSequence e)) = Some m' \<and> confidenceScore m' = CONFIDENCE_MATCH)"
      using hits nohit by simp
    moreover have "(best', q') =
        (if q < CONFIDENCE_MATCH
         then (case find (hasStart p ms) (a # es) of None \<Rightarrow> (best, q) | Some e \<Rightarrow> (Some e, CONFIDENCE_MATCH))
         else (best, q))"
      using best nohit by simp
    ultimately show ?thesis
      unfolding step using r sq keep by blast
  next
    case False
    then have hit: "hasStart p ms a"
      by (simp add: hasStart_def m)
    let ?m1 = "updateAndAdvance (Some p) f
                 ((reset m)\<lparr> matchPosition := nat (findBestStartingPosition (Some p) m) \<rparr>)"
    let ?ms1 = "ms(?k \<mapsto> ?m1)"
    let ?acc = "if CONFIDENCE_MATCH > q then (?ms1, Some a, CONFIDENCE_MATCH) else (?ms1, best, q)"
    have conf1: "confidenceScore ?m1 = CONFIDENCE_MATCH"
      using False by (rule fresh_start_quality)
    have seq1: "sequence ?m1 = sequence m"
      by (simp add: updateAndAdvance_sequence reset_def)
    have step: "searchEnemies p f (a # es) (ms, best, q) = searchEnemies p f es ?acc"
      using False conf1 by (simp add: m getMatchQuality_def Let_def)
    have sq1: "\<forall>k. map_option sequence (?ms1 k) = map_option sequence (ms k)"
      using seq1 m by simp
    have dom1: "\<forall>e\<in>set es. ?ms1 (id_seq (moveSequence e)) \<noteq> None"
      using Cons.prems by simp
    obtain b1 q1 where acc: "?acc = (?ms1, b1, q1)"
      and bq: "(b1, q1) = (if CONFIDENCE_MATCH > q then (Some a, CONFIDENCE_MATCH) else (best, q))"
      by (cases "CONFIDENCE_MATCH > q") simp_all
    from Cons.IH [OF dom1, of b1 q1] obtain ms' best' q' where
      r: "searchEnemies p f es (?ms1, b1, q1) = Inr (ms', best', q')"
      and sq: "\<forall>k. map_option sequence (ms' k) = map_option sequence (?ms1 k)"
      and keep: "\<forall>k m. ?ms1 k = Some m \<and> confidenceScore m = CONFIDENCE_MATCH
        \<longrightarrow> (\<exists>m'. ms' k = Some m' \<and> confidenceScore m' = CONFIDENCE_MATCH)"
      and hits: "\<forall>e\<in>set es. hasStart p ?ms1 e
        \<longrightarrow> (\<exists>m'. ms' (id_seq (moveSequence e)) = Some m' \<and> confidenceScore m' = CONFIDENCE_MATCH)"
      and best: "(best', q') =
        (if q1 < CONFIDENCE_MATCH
         then (case find (hasStart p ?ms1) es of None \<Rightarrow> (b1, q1) | Some e \<Rightarrow> (Some e, CONFIDENCE_MATCH))
         else (b1, q1))"
      by blast
    have c1: "\<forall>k. map_option sequence (ms' k) = map_option sequence (ms k)"
      using sq sq1 by simp
    have c2: "\<forall>k m. ms k = Some m \<and> confidenceScore m = CONFIDENCE_MATCH
        \<longrightarrow> (\<exists>m'. ms' k = Some m' \<and> confidenceScore m' = CONFIDENCE_MATCH)"
    proof (intro allI impI)
      fix k m0
      assume "ms k = Some m0 \<and> confidenceScore m0 = CONFIDENCE_MATCH"
      then have "\<exists>m1. ?ms1 k = Some m1 \<and> confidenceScore m1 = CONFIDENCE_MATCH"
        using conf1 by (cases "k = ?k") simp_all
      then show "\<exists>m'. ms' k = Some m' \<and> confidenceScore m' = CONFIDENCE_MATCH"
        using keep by blast
    qed
    have c3: "\<forall>e\<in>set (a # es). hasStart p ms e
        \<longrightarrow> (\<exists>m'. ms' (id_seq (moveSequence e)) = Some m' \<and> confidenceScore m' = CONFIDENCE_MATCH)"
    proof (intro ballI impI)
      fix e
      assume e: "e \<in> set (a # es)" and h: "hasStart p ms e"
      show "\<exists>m'. ms' (id_seq (moveSequence e)) = Some m' \<and> confidenceScore m' = CONFIDENCE_MATCH"
      proof (cases "e = a")
        case True
        have "?ms1 ?k = Some ?m1 \<and> confidenceScore ?m1 = CONFIDENCE_MATCH"
          using conf1 by simp
        then show ?thesis
          unfolding True using keep by blast
      next
        case False
        with e have "e \<in> set es" by simp
        moreover have "hasStart p ?ms1 e"
          unfolding hasStart_sequences [OF sq1] by (rule h)
        ultimately show ?thesis using hits by blast
      qed
    qed
    have c4: "(best', q') =
        (if q < CONFIDENCE_MATCH
         then (case find (hasStart p ms) (a # es) of None \<Rightarrow> (best, q) | Some e \<Rightarrow> (Some e, CONFIDENCE_MATCH))
         else (best, q))"
      using best bq hit by (cases "CONFIDENCE_MATCH > q") simp_all
    show ?thesis
      unfolding step acc using r c1 c2 c3 c4 by blast
  qed
qed

lemma handleTransitions_build:
  assumes "confirmedMatchEnemy pl = None" "sequenceMatchers pl (id_seq (moveSequence e)) = Some m"
    "QUALITY_THRESHOLD_BUILD < q"
  shows "\<exists>pl'. handleTransitions pl (Some e) q = Inr pl' \<and> currentMatchingEnemy pl' = Some e \<and>
     sequenceMatchers pl' = sequenceMatchers pl \<and>
     confirmedMatchEnemy pl' = (if 0 < cyclesCompleted m then Some e else None)"
  using assms by (simp add: handleTransitions_def morphToColor_def)

text \<open>
  C10. The arbitrator tracks no enemy, the warm-up guard is passed, and \<open>e\<close> is the first
  enemy in enumeration order whose matcher finds a starting position for the player's
  pose. The single update of a matcher reset to a found position is a perfect match that
  leaves the confidence at the reward constant, which is above the build threshold; so
  the tick ends with \<open>e\<close> as \<open>currentMatchingEnemy\<close>, and the matcher of every enemy that
  found a starting position has the same quality, the reward constant.
\<close>

theorem fresh_hit_selects_first_enemy:
  assumes "5 \<le> length (moveHistory (player g))"
    and "currentMatchingEnemy (player g) = None"
    and "confirmedMatchEnemy (player g) = None"
    and "ms0 = initMatchers (enemies g) (sequenceMatchers (player g))"
    and "find (hasStart (states (player g)) ms0) (enemies g) = Some e"
  shows "(findBestStartingPosition (Some (states (player g))) m \<noteq> - 1 \<longrightarrow>
            updateMatch (Some (states (player g))) f
              ((reset m)\<lparr> matchPosition := nat (findBestStartingPosition (Some (states (player g))) m) \<rparr>)
            = (True, (reset m)\<lparr> matchPosition := nat (findBestStartingPosition (Some (states (player g))) m),
                                confidenceScore := CONFIDENCE_MATCH,
                                lastMatchFrame := Frame f, isActive := True \<rparr>)) \<and>
         QUALITY_THRESHOLD_BUILD < CONFIDENCE_MATCH \<and>
         (\<exists>g'. checkPlayerMatches g = Inr g' \<and>
            currentMatchingEnemy (player g') = Some e \<and>
            (\<forall>e'\<in>set (enemies g). hasStart (states (player g)) ms0 e' \<longrightarrow>
               (\<exists>m'. sequenceMatchers (player g') (id_seq (moveSequence e')) = Some m' \<and>
                     getMatchQuality m' = CONFIDENCE_MATCH)))"
proof -
  let ?p = "states (player g)"
  let ?pl = "player g"
  have thr: "QUALITY_THRESHOLD_BUILD < CONFIDENCE_MATCH"
    by (simp add: QUALITY_THRESHOLD_BUILD_def CONFIDENCE_MATCH_def)
  have dom: "\<forall>e\<in>set (enemies g). ms0 (id_seq (moveSequence e)) \<noteq> None"
    unfolding assms(4) using initMatchers_covers by blast
  have pos: "(0::real) < CONFIDENCE_MATCH"
    by (simp add: CONFIDENCE_MATCH_def)
  from searchEnemies_result [OF dom, of ?p "frameCounter ?pl" None 0] obtain ms' best' q' where
    r: "searchEnemies ?p (frameCounter ?pl) (enemies g) (ms0, None, 0) = Inr (ms', best', q')"
    and hits: "\<forall>e\<in>set (enemies g). hasStart ?p ms0 e
        \<longrightarrow> (\<exists>m'. ms' (id_seq (moveSequence e)) = Some m' \<and> confidenceScore m' = CONFIDENCE_MATCH)"
    and best: "(best', q') =
        (if 0 < CONFIDENCE_MATCH
         then (case find (hasStart ?p ms0) (enemies g) of None \<Rightarrow> (None, 0)
               | Some e \<Rightarrow> (Some e, CONFIDENCE_MATCH))
         else (None, 0))"
    by blast
  from best pos assms(5) have bq: "best' = Some e" "q' = CONFIDENCE_MATCH"
    by simp_all
  from assms(5) have e: "e \<in> set (enemies g)" "hasStart ?p ms0 e"
    by (auto simp: find_Some_iff)
  with hits obtain me where me: "ms' (id_seq (moveSequence e)) = Some me"
    by blast
  let ?pl1 = "?pl\<lparr> sequenceMatchers := ms' \<rparr>"
  have "confirmedMatchEnemy ?pl1 = None" "sequenceMatchers ?pl1 (id_seq (moveSequence e)) = Some me"
    using assms(3) me by simp_all
  from handleTransitions_build [OF this thr] obtain pl' where
    h: "handleTransitions ?pl1 (Some e) CONFIDENCE_MATCH = Inr pl'"
    and cur: "currentMatchingEnemy pl' = Some e"
    and sm: "sequenceMatchers pl' = ms'"
    by auto
  have chk: "checkPlayerMatches g = Inr (g\<lparr> player := pl' \<rparr>)"
    using assms(1,2,3) r h
    by (simp add: checkPlayerMatches_def Let_def assms(4) [symmetric] bq)
  have "\<forall>e'\<in>set (enemies g). hasStart ?p ms0 e' \<longrightarrow>
      (\<exists>m'. sequenceMatchers (player (g\<lparr> player := pl' \<rparr>)) (id_seq (moveSequence e')) = Some m' \<and>
            getMatchQuality m' = CONFIDENCE_MATCH)"
    using hits by (simp add: sm getMatchQuality_def)
  with chk cur have "\<exists>g'. checkPlayerMatches g = Inr g' \<and>
            currentMatchingEnemy (player g') = Some e \<and>
            (\<forall>e'\<in>set (enemies g). hasStart ?p ms0 e' \<longrightarrow>
               (\<exists>m'. sequenceMatchers (player g') (id_seq (moveSequence e')) = Some m' \<and>
                     getMatchQuality m' = CONFIDENCE_MATCH))"
    by (intro exI [of _ "g\<lparr> player := pl' \<rparr>"]) simp
  then show ?thesis
    using thr fresh_start_is_perfect_match [of ?p m f] by blast
qed

theorem fresh_hit_selects_first_enemy_witness:
  "5 \<le> length (moveHistory (player searchGame)) \<and>
   currentMatchingEnemy (player searchGame) = None \<and>
   confirmedMatchEnemy (player searchGame) = None \<and>
   \<not> hasStart leftArmPose (initMatchers (enemies searchGame) Map.empty) legEnemy \<and>
   hasStart leftArmPose (initMatchers (enemies searchGame) Map.empty) armEnemy \<and>
   hasStart leftArmPose (initMatchers (enemies searchGame) Map.empty) lateArmEnemy \<and>
   (\<exists>g'. checkPlayerMatches searchGame = Inr g' \<and>
      currentMatchingEnemy (player g') = Some armEnemy \<and>
      (\<exists>m'. sequenceMatchers (player g') ''enemy1'' = Some m' \<and>
            getMatchQuality m' = CONFIDENCE_MATCH) \<and>
      (\<exists>m'. sequenceMatchers (player g') ''enemy3'' = Some m' \<and>
            getMatchQuality m' = CONFIDENCE_MATCH))"
proof -
  let ?ms0 = "initMatchers (enemies searchGame) (sequenceMatchers (player searchGame))"
  have h: "5 \<le> length (moveHistory (player searchGame))"
    "currentMatchingEnemy (player searchGame) = None"
    "confirmedMatchEnemy (player searchGame) = None"
    by (simp_all add: searchGame_def new_Player_def)
  have st: "states (player searchGame) = leftArmPose"
    "sequenceMatchers (player searchGame) = Map.empty"
    "enemies searchGame = [legEnemy, armEnemy, lateArmEnemy]"
    by (simp_all add: searchGame_def new_Player_def)
  have first: "find (hasStart (states (player searchGame)) ?ms0) (enemies searchGame) = Some armEnemy"
    by code_simp
  have hs: "\<not> hasStart leftArmPose ?ms0 legEnemy" "hasStart leftArmPose ?ms0 armEnemy"
    "hasStart leftArmPose ?ms0 lateArmEnemy"
    by code_simp+
  have ids: "id_seq (moveSequence armEnemy) = ''enemy1''" "id_seq (moveSequence lateArmEnemy) = ''enemy3''"
    by (simp_all add: armEnemy_def lateArmEnemy_def)
  from fresh_hit_selects_first_enemy [OF h refl first] obtain g' where
    g': "checkPlayerMatches searchGame = Inr g'" "currentMatchingEnemy (player g') = Some armEnemy"
      "\<forall>e'\<in>set (enemies searchGame). hasStart (states (player searchGame)) ?ms0 e' \<longrightarrow>
         (\<exists>m'. sequenceMatchers (player g') (id_seq (moveSequence e')) = Some m' \<and>
               getMatchQuality m' = CONFIDENCE_MATCH)"
    by blast
  from g'(3) hs(2,3) have "\<exists>m'. sequenceMatchers (player g') ''enemy1'' = Some m' \<and>
            getMatchQuality m' = CONFIDENCE_MATCH"
    "\<exists>m'. sequenceMatchers (player g') ''enemy3'' = Some m' \<and>
            getMatchQuality m' = CONFIDENCE_MATCH"
    unfolding st(1) st(3) ids [symmetric] by simp_all
  with g'(1,2) h hs show ?thesis
    unfolding st(2) by blast
qed

lemma Player_update_fields:
  "states (Player_update pl) = (if blinkTimer pl > 0 then states pl else (states pl)\<lparr> lampBlinking := False \<rparr>)"
  "sequenceMatchers (Player_update pl) = sequenceMatchers pl"
  "currentMatchingEnemy (Player_update pl) = currentMatchingEnemy pl"
  "confirmedMatchEnemy (Player_update pl) = confirmedMatchEnemy pl"
  "graceFrames (Player_update pl) = graceFrames pl"
  "gracePeriod (Player_update pl) = gracePeriod pl"
  "maxHistoryLength (Player_update pl) = maxHistoryLength pl"
  "frameCounter (Player_update pl) = frameCounter pl"
  by (simp_all add: Player_update_def recordMove_def Let_def)

lemma Player_update_history:
  "n \<le> maxHistoryLength pl \<Longrightarrow> n \<le> Suc (length (moveHistory pl)) \<Longrightarrow>
   n \<le> length (moveHistory (Player_update pl))"
  by (auto simp: Player_update_def recordMove_def Let_def)

text \<open>The tick for a confirmed enemy, past the warm-up guard.\<close>

lemma check_confirmed_kept:
  assumes "5 \<le> length (moveHistory (player g))"
    and "confirmedMatchEnemy (player g) = Some e"
    and "sequenceMatchers (player g) (id_seq (moveSequence e)) = Some m"
    and "m1 = updateAndAdvance (Some (states (player g))) (frameCounter (player g)) m"
    and "QUALITY_THRESHOLD_CONFIRM < confidenceScore m1 \<or>
         Suc (graceFrames (player g)) < gracePeriod (player g)"
  shows "\<exists>g'. checkPlayerMatches g = Inr g' \<and>
     confirmedMatchEnemy (player g') = Some e \<and>
     sequenceMatchers (player g') (id_seq (moveSequence e)) = Some m1 \<and>
     graceFrames (player g') =
       (if QUALITY_THRESHOLD_CONFIRM < confidenceScore m1 then 0 else Suc (graceFrames (player g))) \<and>
     gracePeriod (player g') = gracePeriod (player g) \<and>
     moveHistory (player g') = moveHistory (player g) \<and>
     maxHistoryLength (player g') = maxHistoryLength (player g) \<and>
     enemies g' = enemies g"
proof -
  let ?ms0 = "initMatchers (enemies g) (sequenceMatchers (player g))"
  have m0: "?ms0 (id_seq (moveSequence e)) = Some m"
    using assms(3) by (rule initMatchers_keeps)
  show ?thesis
    using assms(1,2,5)
    by (auto simp: checkPlayerMatches_def Let_def trackEnemy_def m0 assms(4) [symmetric]
        handleTransitions_def getMatchQuality_def morphToColor_def)
qed

lemma check_confirmed_cleared:
  assumes "5 \<le> length (moveHistory (player g))"
    and "confirmedMatchEnemy (player g) = Some e"
    and "sequenceMatchers (player g) (id_seq (moveSequence e)) = Some m"
    and "m1 = updateAndAdvance (Some (states (player g))) (frameCounter (player g)) m"
    and "\<not> QUALITY_THRESHOLD_CONFIRM < confidenceScore m1"
    and "\<not> Suc (graceFrames (player g)) < gracePeriod (player g)"
  shows "\<exists>g'. checkPlayerMatches g = Inr g' \<and>
     confirmedMatchEnemy (player g') = None \<and>
     currentMatchingEnemy (player g') = None \<and>
     (\<forall>k m'. sequenceMatchers (player g') k = Some m' \<longrightarrow>
        matchPosition m' = 0 \<and> cyclesCompleted m' = 0 \<and> confidenceScore m' = 0) \<and>
     (\<forall>e'\<in>set (enemies g). sequenceMatchers (player g') (id_seq (moveSequence e')) \<noteq> None)"
proof -
  let ?ms0 = "initMatchers (enemies g) (sequenceMatchers (player g))"
  let ?ms1 = "?ms0(id_seq (moveSequence e) \<mapsto> m1)"
  let ?pl' = "(morphToColor (originalColor (player g))
      ((player g)\<lparr> sequenceMatchers := ?ms1, graceFrames := Suc (graceFrames (player g)),
          confirmedMatchEnemy := None, currentMatchingEnemy := None \<rparr>))
      \<lparr> sequenceMatchers := map_option reset \<circ> ?ms1 \<rparr>"
  have m0: "?ms0 (id_seq (moveSequence e)) = Some m"
    using assms(3) by (rule initMatchers_keeps)
  have chk: "checkPlayerMatches g = Inr (g\<lparr> player := ?pl' \<rparr>)"
    using assms(1,2,5,6)
    by (simp add: checkPlayerMatches_def Let_def trackEnemy_def m0 assms(4) [symmetric]
        handleTransitions_def getMatchQuality_def morphToColor_def)
  have sm: "sequenceMatchers ?pl' = map_option reset \<circ> ?ms1"
    by simp
  have "\<forall>k m'. (map_option reset \<circ> ?ms1) k = Some m' \<longrightarrow>
        matchPosition m' = 0 \<and> cyclesCompleted m' = 0 \<and> confidenceScore m' = 0"
    by (auto simp: reset_def)
  moreover have "\<forall>e'\<in>set (enemies g). (map_option reset \<circ> ?ms1) (id_seq (moveSequence e')) \<noteq> None"
    using initMatchers_covers [of _ "enemies g" "sequenceMatchers (player g)"] by simp
  ultimately show ?thesis
    unfolding chk using sm by (simp add: morphToColor_def)
qed

lemma Game_update_beforeCheck:
  "Game_update pose g = checkPlayerMatches (beforeCheck pose g)"
  by (simp add: Game_update_def beforeCheck_def Let_def)

lemma beforeCheck_fields:
  "sequenceMatchers (player (beforeCheck pose g)) = sequenceMatchers (player g)"
  "currentMatchingEnemy (player (beforeCheck pose g)) = currentMatchingEnemy (player g)"
  "confirmedMatchEnemy (player (beforeCheck pose g)) = confirmedMatchEnemy (player g)"
  "graceFrames (player (beforeCheck pose g)) = graceFrames (player g)"
  "gracePeriod (player (beforeCheck pose g)) = gracePeriod (player g)"
  "maxHistoryLength (player (beforeCheck pose g)) = maxHistoryLength (player g)"
  "enemies (beforeCheck pose g) = enemies g"
  by (simp_all add: beforeCheck_def Player_update_fields)

lemma beforeCheck_states:
  "statesEqual (Some (states (player (beforeCheck pose g)))) x = statesEqual (Some pose) x"
  "isActiveState (Some (states (player (beforeCheck pose g)))) = isActiveState (Some pose)"
  by (simp_all add: beforeCheck_def Player_update_fields del: isActiveState.simps)

lemma beforeCheck_history:
  "n \<le> maxHistoryLength (player g) \<Longrightarrow> n \<le> Suc (length (moveHistory (player g))) \<Longrightarrow>
   n \<le> length (moveHistory (player (beforeCheck pose g)))"
  using Player_update_history [of n "(player g)\<lparr> states := pose \<rparr>"]
  by (simp add: beforeCheck_def)

lemma Game_update_keeps_confirmed:
  assumes "confirmedMatchEnemy (player g) = Some e"
    and "sequenceMatchers (player g) (id_seq (moveSequence e)) \<noteq> None"
    and "Suc (graceFrames (player g)) < gracePeriod (player g)"
  shows "\<exists>g'. Game_update pose g = Inr g' \<and>
     confirmedMatchEnemy (player g') = Some e \<and>
     sequenceMatchers (player g') (id_seq (moveSequence e)) \<noteq> None \<and>
     graceFrames (player g') \<le> Suc (graceFrames (player g)) \<and>
     gracePeriod (player g') = gracePeriod (player g)"
proof (cases "5 \<le> length (moveHistory (player (beforeCheck pose g)))")
  case True
  let ?g1 = "beforeCheck pose g"
  from assms(2) obtain m where m: "sequenceMatchers (player ?g1) (id_seq (moveSequence e)) = Some m"
    by (auto simp: beforeCheck_fields)
  have "confirmedMatchEnemy (player ?g1) = Some e"
    "QUALITY_THRESHOLD_CONFIRM <
       confidenceScore (updateAndAdvance (Some (states (player ?g1))) (frameCounter (player ?g1)) m) \<or>
     Suc (graceFrames (player ?g1)) < gracePeriod (player ?g1)"
    using assms(1,3) by (simp_all add: beforeCheck_fields)
  from check_confirmed_kept [OF True this(1) m refl this(2)]
  show ?thesis
    unfolding Game_update_beforeCheck by (auto simp: beforeCheck_fields)
next
  case False
  then have "checkPlayerMatches (beforeCheck pose g) = Inr (beforeCheck pose g)"
    by (simp add: checkPlayerMatches_def)
  then show ?thesis
    unfolding Game_update_beforeCheck using assms by (simp add: beforeCheck_fields)
qed

lemma injectFrames_keeps_confirmed:
  "confirmedMatchEnemy (player g) = Some e \<Longrightarrow>
   sequenceMatchers (player g) (id_seq (moveSequence e)) \<noteq> None \<Longrightarrow>
   graceFrames (player g) + length qs < gracePeriod (player g) \<Longrightarrow>
   \<exists>g'. injectFrames qs g = Inr g' \<and> confirmedMatchEnemy (player g') = Some e"
proof (induction qs arbitrary: g)
  case Nil
  then show ?case by simp
next
  case (Cons q qs)
  from Cons.prems(3) have "Suc (graceFrames (player g)) < gracePeriod (player g)"
    by simp
  from Game_update_keeps_confirmed [OF Cons.prems(1,2) this, of q] obtain g1 where
    g1: "Game_update q g = Inr g1" "confirmedMatchEnemy (player g1) = Some e"
      "sequenceMatchers (player g1) (id_seq (moveSequence e)) \<noteq> None"
      "graceFrames (player g1) \<le> Suc (graceFrames (player g))"
      "gracePeriod (player g1) = gracePeriod (player g)"
    by blast
  have "graceFrames (player g1) + length qs < gracePeriod (player g1)"
    using g1(4,5) Cons.prems(3) by simp
  from Cons.IH [OF g1(2,3) this] show ?case
    by (simp add: g1(1))
qed

text \<open>A frame that mismatches the expected frame of a matcher of low quality.\<close>

lemma mismatch_update:
  assumes "at_index (sequence m) (matchPosition m) = Some x"
    and "isActiveState (Some x)" "isActiveState ps" "\<not> statesEqual ps (Some x)"
  shows "updateAndAdvance ps f m =
     m\<lparr> confidenceScore := max 0 (confidenceScore m - CONFIDENCE_DECAY_ACTIVE), isActive := False \<rparr>"
  using assms by (simp add: updateAndAdvance_def updateMatch_def)

lemma mismatch_tick:
  assumes "4 \<le> length (moveHistory (player g))" "5 \<le> maxHistoryLength (player g)"
    and "confirmedMatchEnemy (player g) = Some e"
    and "sequenceMatchers (player g) (id_seq (moveSequence e)) = Some m"
    and "at_index (sequence m) (matchPosition m) = Some x" "isActiveState (Some x)"
    and "isActiveState (Some pose)" "\<not> statesEqual (Some pose) (Some x)"
    and "confidenceScore m - CONFIDENCE_DECAY_ACTIVE \<le> QUALITY_THRESHOLD_CONFIRM"
    and "m1 = m\<lparr> confidenceScore := max 0 (confidenceScore m - CONFIDENCE_DECAY_ACTIVE),
                  isActive := False \<rparr>"
  shows "(Suc (graceFrames (player g)) < gracePeriod (player g) \<longrightarrow>
      (\<exists>g'. Game_update pose g = Inr g' \<and>
         confirmedMatchEnemy (player g') = Some e \<and>
         sequenceMatchers (player g') (id_seq (moveSequence e)) = Some m1 \<and>
         graceFrames (player g') = Suc (graceFrames (player g)) \<and>
         gracePeriod (player g') = gracePeriod (player g) \<and>
         4 \<le> length (moveHistory (player g')) \<and>
         maxHistoryLength (player g') = maxHistoryLength (player g) \<and>
         enemies g' = enemies g)) \<and>
    (\<not> Suc (graceFrames (player g)) < gracePeriod (player g) \<longrightarrow>
      (\<exists>g'. Game_update pose g = Inr g' \<and>
         confirmedMatchEnemy (player g') = None \<and>
         currentMatchingEnemy (player g') = None \<and>
         (\<forall>k m'. sequenceMatchers (player g') k = Some m' \<longrightarrow>
            matchPosition m' = 0 \<and> cyclesCompleted m' = 0 \<and> confidenceScore m' = 0) \<and>
         (\<forall>e'\<in>set (enemies g). sequenceMatchers (player g') (id_seq (moveSequence e')) \<noteq> None)))"
proof -
  let ?g1 = "beforeCheck pose g"
  have hist: "5 \<le> length (moveHistory (player ?g1))"
    using assms(1,2) by (intro beforeCheck_history) simp_all
  have conf: "confirmedMatchEnemy (player ?g1) = Some e"
    and m: "sequenceMatchers (player ?g1) (id_seq (moveSequence e)) = Some m"
    using assms(3,4) by (simp_all add: beforeCheck_fields)
  have "isActiveState (Some (states (player ?g1)))"
    "\<not> statesEqual (Some (states (player ?g1))) (Some x)"
    using assms(7,8) by (simp_all only: beforeCheck_states simp_thms)
  from mismatch_update [OF assms(5,6) this]
  have m1: "m1 = updateAndAdvance (Some (states (player ?g1))) (frameCounter (player ?g1)) m"
    by (simp add: assms(10))
  have low: "\<not> QUALITY_THRESHOLD_CONFIRM < confidenceScore m1"
  proof -
    have "0 \<le> QUALITY_THRESHOLD_CONFIRM"
      by (simp add: QUALITY_THRESHOLD_CONFIRM_def)
    with assms(9) have "max 0 (confidenceScore m - CONFIDENCE_DECAY_ACTIVE) \<le> QUALITY_THRESHOLD_CONFIRM"
      by (auto simp: max_def)
    then show ?thesis
      unfolding assms(10) by (simp add: not_less)
  qed
  show ?thesis
  proof (cases "Suc (graceFrames (player g)) < gracePeriod (player g)")
    case True
    then have "QUALITY_THRESHOLD_CONFIRM < confidenceScore m1 \<or>
         Suc (graceFrames (player ?g1)) < gracePeriod (player ?g1)"
      by (simp add: beforeCheck_fields)
    from check_confirmed_kept [OF hist conf m m1 this] obtain g' where
      g': "checkPlayerMatches ?g1 = Inr g'" "confirmedMatchEnemy (player g') = Some e"
        "sequenceMatchers (player g') (id_seq (moveSequence e)) = Some m1"
        "graceFrames (player g') =
          (if QUALITY_THRESHOLD_CONFIRM < confidenceScore m1 then 0 else Suc (graceFrames (player ?g1)))"
        "gracePeriod (player g') = gracePeriod (player ?g1)"
        "moveHistory (player g') = moveHistory (player ?g1)"
        "maxHistoryLength (player g') = maxHistoryLength (player ?g1)"
        "enemies g' = enemies ?g1"
      by blast
    have "4 \<le> length (moveHistory (player g'))"
      using hist g'(6) by simp
    then show ?thesis
      unfolding Game_update_beforeCheck using True g' low
      by (simp add: beforeCheck_fields)
  next
    case False
    then have "\<not> Suc (graceFrames (player ?g1)) < gracePeriod (player ?g1)"
      by (simp add: beforeCheck_fields)
    from check_confirmed_cleared [OF hist conf m m1 low this]
    show ?thesis
      unfolding Game_update_beforeCheck using False
      by (simp add: beforeCheck_fields)
  qed
qed


lemma mismatch_run_clears:
  "4 \<le> length (moveHistory (player g)) \<Longrightarrow> 5 \<le> maxHistoryLength (player g) \<Longrightarrow>
   confirmedMatchEnemy (player g) = Some e \<Longrightarrow>
   sequenceMatchers (player g) (id_seq (moveSequence e)) = Some m \<Longrightarrow>
   at_index (sequence m) (matchPosition m) = Some x \<Longrightarrow> isActiveState (Some x) \<Longrightarrow>
   \<forall>p\<in>set ps. isActiveState (Some p) \<and> \<not> statesEqual (Some p) (Some x) \<Longrightarrow>
   confidenceScore m - CONFIDENCE_DECAY_ACTIVE \<le> QUALITY_THRESHOLD_CONFIRM \<Longrightarrow>
   graceFrames (player g) + length ps = gracePeriod (player g) \<Longrightarrow> ps \<noteq> [] \<Longrightarrow>
   \<exists>g'. injectFrames ps g = Inr g' \<and>
      confirmedMatchEnemy (player g') = None \<and>
      currentMatchingEnemy (player g') = None \<and>
      (\<forall>k m'. sequenceMatchers (player g') k = Some m' \<longrightarrow>
         matchPosition m' = 0 \<and> cyclesCompleted m' = 0 \<and> confidenceScore m' = 0) \<and>
      (\<forall>e'\<in>set (enemies g). sequenceMatchers (player g') (id_seq (moveSequence e')) \<noteq> None)"
proof (induction ps arbitrary: g m)
  case Nil
  then show ?case by simp
next
  case (Cons p ps)
  let ?m1 = "m\<lparr> confidenceScore := max 0 (confidenceScore m - CONFIDENCE_DECAY_ACTIVE),
                isActive := False \<rparr>"
  from Cons.prems(7) have p: "isActiveState (Some p)" "\<not> statesEqual (Some p) (Some x)"
    and rest: "\<forall>p\<in>set ps. isActiveState (Some p) \<and> \<not> statesEqual (Some p) (Some x)"
    by simp_all
  note tick = mismatch_tick [OF Cons.prems(1-6) p Cons.prems(8) refl]
  show ?case
  proof (cases "ps = []")
    case True
    with Cons.prems(9) have "\<not> Suc (graceFrames (player g)) < gracePeriod (player g)"
      by simp
    with tick show ?thesis
      unfolding True by auto
  next
    case False
    with Cons.prems(9) have "Suc (graceFrames (player g)) < gracePeriod (player g)"
      by (cases ps) simp_all
    with tick obtain g1 where g1: "Game_update p g = Inr g1"
      "confirmedMatchEnemy (player g1) = Some e"
      "sequenceMatchers (player g1) (id_seq (moveSequence e)) = Some ?m1"
      "graceFrames (player g1) = Suc (graceFrames (player g))"
      "gracePeriod (player g1) = gracePeriod (player g)"
      "4 \<le> length (moveHistory (player g1))"
      "maxHistoryLength (player g1) = maxHistoryLength (player g)"
      "enemies g1 = enemies g"
      by blast
    have a: "5 \<le> maxHistoryLength (player g1)"
      using Cons.prems(2) g1(7) by simp
    have b: "at_index (sequence ?m1) (matchPosition ?m1) = Some x"
      using Cons.prems(5) by simp
    have c: "confidenceScore ?m1 - CONFIDENCE_DECAY_ACTIVE \<le> QUALITY_THRESHOLD_CONFIRM"
      using Cons.prems(8)
      by (auto simp: max_def CONFIDENCE_DECAY_ACTIVE_def QUALITY_THRESHOLD_CONFIRM_def)
    have d: "graceFrames (player g1) + length ps = gracePeriod (player g1)"
      using Cons.prems(9) g1(4,5) by simp
    from Cons.IH [OF g1(6) a g1(2,3) b Cons.prems(6) rest c d False]
    show ?thesis
      by (simp add: g1(1,8))
  qed
qed

text \<open>
  C6, amended. The arbitrator has a confirmed enemy and the grace counter is 0. Then no
  run of fewer than \<open>gracePeriod\<close> ticks, whatever the poses, clears the confirmed enemy.
  When moreover the warm-up guard is passed, the confirmed matcher expects an active frame
  \<open>x\<close> and its quality is so low that one active decay brings it to the confirm threshold or
  below, a run of exactly \<open>gracePeriod\<close> poses that are active and differ from \<open>x\<close> clears
  the confirmed and the current enemy and leaves every matcher with \<open>matchPosition\<close>,
  \<open>cyclesCompleted\<close> and \<open>confidenceScore\<close> 0, every enemy having a matcher.
\<close>

theorem grace_period_hysteresis:
  assumes "confirmedMatchEnemy (player g) = Some e"
    and "sequenceMatchers (player g) (id_seq (moveSequence e)) = Some m"
    and "graceFrames (player g) = 0"
  shows "(length qs < gracePeriod (player g) \<longrightarrow>
            (\<exists>g'. injectFrames qs g = Inr g' \<and> confirmedMatchEnemy (player g') = Some e)) \<and>
         (4 \<le> length (moveHistory (player g)) \<and> 5 \<le> maxHistoryLength (player g) \<and>
          at_index (sequence m) (matchPosition m) = Some x \<and> isActiveState (Some x) \<and>
          (\<forall>p\<in>set ps. isActiveState (Some p) \<and> \<not> statesEqual (Some p) (Some x)) \<and>
          confidenceScore m - CONFIDENCE_DECAY_ACTIVE \<le> QUALITY_THRESHOLD_CONFIRM \<and>
          length ps = gracePeriod (player g) \<and> 0 < gracePeriod (player g) \<longrightarrow>
            (\<exists>g'. injectFrames ps g = Inr g' \<and>
               confirmedMatchEnemy (player g') = None \<and>
               currentMatchingEnemy (player g') = None \<and>
               (\<forall>k m'. sequenceMatchers (player g') k = Some m' \<longrightarrow>
                  matchPosition m' = 0 \<and> cyclesCompleted m' = 0 \<and> confidenceScore m' = 0) \<and>
               (\<forall>e'\<in>set (enemies g).
                  sequenceMatchers (player g') (id_seq (moveSequence e')) \<noteq> None)))"
proof (intro conjI impI)
  assume "length qs < gracePeriod (player g)"
  then have "graceFrames (player g) + length qs < gracePeriod (player g)"
    using assms(3) by simp
  moreover have "sequenceMatchers (player g) (id_seq (moveSequence e)) \<noteq> None"
    using assms(2) by simp
  ultimately show "\<exists>g'. injectFrames qs g = Inr g' \<and> confirmedMatchEnemy (player g') = Some e"
    using assms(1) by (intro injectFrames_keeps_confirmed)
next
  assume h: "4 \<le> length (moveHistory (player g)) \<and> 5 \<le> maxHistoryLength (player g) \<and>
          at_index (sequence m) (matchPosition m) = Some x \<and> isActiveState (Some x) \<and>
          (\<forall>p\<in>set ps. isActiveState (Some p) \<and> \<not> statesEqual (Some p) (Some x)) \<and>
          confidenceScore m - CONFIDENCE_DECAY_ACTIVE \<le> QUALITY_THRESHOLD_CONFIRM \<and>
          length ps = gracePeriod (player g) \<and> 0 < gracePeriod (player g)"
  then have "graceFrames (player g) + length ps = gracePeriod (player g)" "ps \<noteq> []"
    using assms(3) by auto
  with h show "\<exists>g'. injectFrames ps g = Inr g' \<and>
               confirmedMatchEnemy (player g') = None \<and>
               currentMatchingEnemy (player g') = None \<and>
               (\<forall>k m'. sequenceMatchers (player g') k = Some m' \<longrightarrow>
                  matchPosition m' = 0 \<and> cyclesCompleted m' = 0 \<and> confidenceScore m' = 0) \<and>
               (\<forall>e'\<in>set (enemies g).
                  sequenceMatchers (player g') (id_seq (moveSequence e')) \<noteq> None)"
    using assms(1,2) by (intro mismatch_run_clears [where m = m and x = x and e = e]) blast+
qed

theorem grace_period_hysteresis_witness:
  "confirmedMatchEnemy (player justConfirmedGame) = Some armEnemy \<and>
   graceFrames (player justConfirmedGame) = 0 \<and>
   gracePeriod (player justConfirmedGame) = 60 \<and>
   confidenceScore (armMatcher 1 (1 / 2) 6) - CONFIDENCE_DECAY_ACTIVE \<le> QUALITY_THRESHOLD_CONFIRM \<and>
   confirmedAfter (replicate 59 rightLegPose) justConfirmedGame = Inr (Some armEnemy) \<and>
   confirmedAfter (replicate 60 rightLegPose) justConfirmedGame = Inr None"
proof -
  have h: "confirmedMatchEnemy (player justConfirmedGame) = Some armEnemy"
    "sequenceMatchers (player justConfirmedGame) (id_seq (moveSequence armEnemy))
       = Some (armMatcher 1 (1 / 2) 6)"
    "graceFrames (player justConfirmedGame) = 0"
    by (simp_all add: justConfirmedGame_def new_Player_def armEnemy_def)
  have period: "gracePeriod (player justConfirmedGame) = 60"
    by (simp add: justConfirmedGame_def new_Player_def GRACE_PERIOD_def)
  have low: "confidenceScore (armMatcher 1 (1 / 2) 6) - CONFIDENCE_DECAY_ACTIVE
      \<le> QUALITY_THRESHOLD_CONFIRM"
    by (simp add: armMatcher_def CONFIDENCE_DECAY_ACTIVE_def QUALITY_THRESHOLD_CONFIRM_def)
  have short: "length (replicate 59 rightLegPose) < gracePeriod (player justConfirmedGame)"
    by (simp add: period)
  have run: "4 \<le> length (moveHistory (player justConfirmedGame)) \<and>
      5 \<le> maxHistoryLength (player justConfirmedGame) \<and>
      at_index (sequence (armMatcher 1 (1 / 2) 6)) (matchPosition (armMatcher 1 (1 / 2) 6))
        = Some leftArmPose \<and>
      isActiveState (Some leftArmPose) \<and>
      (\<forall>p\<in>set (replicate 60 rightLegPose).
          isActiveState (Some p) \<and> \<not> statesEqual (Some p) (Some leftArmPose)) \<and>
      confidenceScore (armMatcher 1 (1 / 2) 6) - CONFIDENCE_DECAY_ACTIVE \<le> QUALITY_THRESHOLD_CONFIRM \<and>
      length (replicate 60 rightLegPose) = gracePeriod (player justConfirmedGame) \<and>
      0 < gracePeriod (player justConfirmedGame)"
    using low
    unfolding period
    by (simp add: justConfirmedGame_def new_Player_def MAX_HISTORY_LENGTH_def
        armMatcher_def new_SequenceMatcher_def at_index_def leftArmPose_def rightLegPose_def)
  from grace_period_hysteresis [OF h, of "replicate 59 rightLegPose" leftArmPose
      "replicate 60 rightLegPose"] short run
  have "(\<exists>g'. injectFrames (replicate 59 rightLegPose) justConfirmedGame = Inr g' \<and>
            confirmedMatchEnemy (player g') = Some armEnemy) \<and>
        (\<exists>g'. injectFrames (replicate 60 rightLegPose) justConfirmedGame = Inr g' \<and>
            confirmedMatchEnemy (player g') = None)"
    by blast
  then have "confirmedAfter (replicate 59 rightLegPose) justConfirmedGame = Inr (Some armEnemy) \<and>
      confirmedAfter (replicate 60 rightLegPose) justConfirmedGame = Inr None"
    by (auto simp: confirmedAfter_def)
  with h(1,3) period low show ?thesis
    by simp
qed

text \<open>
  C6 as stated fails: \<open>fullConfidenceGame\<close> has \<open>armEnemy\<close> confirmed with quality 1 and grace
  counter 0, its matcher expects the left arm, and the grace period is 60. After 60
  consecutive ticks with the right leg raised, each a mismatch, \<open>armEnemy\<close> is still
  confirmed: the first two mismatches leave the quality above the confirm threshold and
  reset the grace counter.
\<close>

theorem full_confidence_survives_grace_period:
  "confirmedMatchEnemy (player fullConfidenceGame) = Some armEnemy \<and>
   graceFrames (player fullConfidenceGame) = 0 \<and>
   gracePeriod (player fullConfidenceGame) = 60 \<and>
   sequenceMatchers (player fullConfidenceGame) ''enemy1'' = Some (armMatcher 2 1 8) \<and>
   at_index (sequence (armMatcher 2 1 8)) (matchPosition (armMatcher 2 1 8)) = Some leftArmPose \<and>
   isActiveState (Some leftArmPose) \<and> isActiveState (Some rightLegPose) \<and>
   \<not> statesEqual (Some rightLegPose) (Some leftArmPose) \<and>
   confirmedAfter (replicate 60 rightLegPose) fullConfidenceGame = Inr (Some armEnemy)"
proof -
  have "confirmedAfter (replicate 60 rightLegPose) fullConfidenceGame = Inr (Some armEnemy)"
    by code_simp
  then show ?thesis
    by (simp add: fullConfidenceGame_def new_Player_def GRACE_PERIOD_def armMatcher_def
        new_SequenceMatcher_def at_index_def leftArmPose_def rightLegPose_def)
qed

text \<open>Both states are reached from a new game with \<open>armEnemy\<close>.\<close>

lemmas run_defs = checkPlayerMatches_def new_Player_def newGame_def
     idlePose_def leftArmPose_def rightLegPose_def trackEnemy_def handleTransitions_def findBestStartingPosition_def
     findLoop.simps new_SequenceMatcher_def updateAndAdvance_def updateMatch_def advancePosition_def
     reset_def getMatchQuality_def morphToColor_def at_index_def Let_def Game_update_def Player_update_def recordMove_def
     CONFIDENCE_MATCH_def QUALITY_THRESHOLD_BUILD_def QUALITY_THRESHOLD_CONFIRM_def CONFIDENCE_DECAY_ACTIVE_def
     CONFIDENCE_DECAY_MIXED_def CONFIDENCE_DECAY_IDLE_def GRACE_PERIOD_def MAX_HISTORY_LENGTH_def
     armEnemy_def armMatcher_def

lemma map_upd_same_eq:
  "(m(k \<mapsto> a) = m(k \<mapsto> b)) = (a = b)"
  by (auto dest: map_upd_eqD1)

lemma justConfirmedGame_reached:
  "injectFrames [idlePose, idlePose, idlePose, idlePose, leftArmPose, idlePose] (newGame [armEnemy])
     = Inr justConfirmedGame"
  by (simp add: run_defs justConfirmedGame_def)

lemma fullConfidenceGame_reached:
  "injectFrames [leftArmPose, idlePose] justConfirmedGame = Inr fullConfidenceGame"
  by (simp add: run_defs justConfirmedGame_def fullConfidenceGame_def map_upd_same_eq
      numeral_2_eq_2)

text \<open>
  C7. On a tick at which the move history holds fewer than 5 frames \<open>checkPlayerMatches\<close>
  returns at once: the game, with every matcher, both candidates, the grace counter and
  the player's colours, is exactly as before; nothing is reported.
\<close>

theorem warm_up_guard:
  "length (moveHistory (player g)) < 5 \<Longrightarrow> checkPlayerMatches g = Inr g"
  by (simp add: checkPlayerMatches_def)

theorem warm_up_guard_witness:
  "length (moveHistory (player (newGame [armEnemy]\<lparr> player := new_Player\<lparr> states := leftArmPose \<rparr> \<rparr>))) < 5 \<and>
   checkPlayerMatches (newGame [armEnemy]\<lparr> player := new_Player\<lparr> states := leftArmPose \<rparr> \<rparr>)
     = Inr (newGame [armEnemy]\<lparr> player := new_Player\<lparr> states := leftArmPose \<rparr> \<rparr>)"
proof -
  have "length (moveHistory (player (newGame [armEnemy]\<lparr> player := new_Player\<lparr> states := leftArmPose \<rparr> \<rparr>))) < 5"
    by (simp add: new_Player_def)
  then show ?thesis
    using warm_up_guard by blast
qed

text \<open>So the first four ticks of a new game track nothing, whatever the poses.\<close>

lemma warm_up_ticks_track_nothing:
  assumes "length poses < 5"
  shows "\<exists>g'. injectFrames poses (newGame es) = Inr g' \<and>
      sequenceMatchers (player g') = Map.empty \<and>
      currentMatchingEnemy (player g') = None \<and> confirmedMatchEnemy (player g') = None"
proof -
  have "length (moveHistory (player g)) + length poses < 5 \<Longrightarrow>
     5 \<le> maxHistoryLength (player g) \<Longrightarrow>
     \<exists>g'. injectFrames poses g = Inr g' \<and>
        sequenceMatchers (player g') = sequenceMatchers (player g) \<and>
        currentMatchingEnemy (player g') = currentMatchingEnemy (player g) \<and>
        confirmedMatchEnemy (player g') = confirmedMatchEnemy (player g)" for g
  proof (induction poses arbitrary: g)
    case Nil
    then show ?case by simp
  next
    case (Cons p poses)
    let ?g1 = "beforeCheck p g"
    have len: "length (moveHistory (player ?g1)) = Suc (length (moveHistory (player g)))"
      using Cons.prems by (simp add: beforeCheck_def Player_update_def recordMove_def Let_def)
    then have "length (moveHistory (player ?g1)) < 5"
      using Cons.prems(1) by simp
    then have step: "Game_update p g = Inr ?g1"
      unfolding Game_update_beforeCheck by (simp add: checkPlayerMatches_def)
    have "length (moveHistory (player ?g1)) + length poses < 5"
      "5 \<le> maxHistoryLength (player ?g1)"
      using Cons.prems len by (simp_all add: beforeCheck_fields)
    from Cons.IH [OF this] show ?case
      by (simp add: step beforeCheck_fields)
  qed
  from this [of "newGame es"] assms show ?thesis
    by (simp add: newGame_def new_Player_def MAX_HISTORY_LENGTH_def)
qed

text \<open>
  The arbitrator newly confirms an enemy only when its matcher has \<open>cyclesCompleted > 0\<close>.
\<close>

lemma confirmation_requires_completed_cycle:
  assumes "checkPlayerMatches g = Inr g'"
    and "confirmedMatchEnemy (player g') = Some e"
    and "confirmedMatchEnemy (player g) \<noteq> Some e"
  shows "\<exists>m. sequenceMatchers (player g') (id_seq (moveSequence e)) = Some m \<and> 0 < cyclesCompleted m"
proof (cases "confirmedMatchEnemy (player g)")
  case None
  show ?thesis
    using assms None
    by (auto simp: checkPlayerMatches_def Let_def handleTransitions_def morphToColor_def
        split: if_splits sum.splits prod.splits option.splits)
next
  case (Some c)
  show ?thesis
    using assms Some
    by (auto simp: checkPlayerMatches_def Let_def handleTransitions_def morphToColor_def
        trackEnemy_def split: if_splits sum.splits prod.splits option.splits)
qed

text \<open>
  A matcher started at the last index of its sequence wraps on its first accepted frame,
  and \<open>advancePosition\<close> counts that wrap as a completed cycle.
\<close>

lemma start_at_last_frame_counts_a_cycle:
  assumes "sequenceLength m = length (sequence m)"
    and "findBestStartingPosition (Some p) m = int s"
    and "Suc s = length (sequence m)"
  shows "cyclesCompleted (updateAndAdvance (Some p) f ((reset m)\<lparr> matchPosition := s \<rparr>)) = 1 \<and>
         matchPosition (updateAndAdvance (Some p) f ((reset m)\<lparr> matchPosition := s \<rparr>)) = 0"
proof -
  have "findBestStartingPosition (Some p) m \<noteq> - 1"
    using assms(2) by simp
  from fresh_start_is_perfect_match [OF this, of f]
  have "updateMatch (Some p) f ((reset m)\<lparr> matchPosition := s \<rparr>)
      = (True, (reset m)\<lparr> matchPosition := s, confidenceScore := CONFIDENCE_MATCH,
                         lastMatchFrame := Frame f, isActive := True \<rparr>)"
    by (simp add: assms(2))
  then show ?thesis
    using assms(1,3) by (simp add: updateAndAdvance_def advancePosition_def reset_def Let_def)
qed

text \<open>
  C5. The arbitrator must not confirm a matcher that was tracked for only \<open>N - 1\<close> frames of a
  sequence of length \<open>N\<close>. The code does: \<open>lateArmEnemy\<close> has \<open>N = 2\<close> frames, idle then left arm.
  After the four warm-up ticks of a new game nothing is tracked and the enemy has no
  matcher. On the fifth tick the player raises the left arm: the matcher is created,
  started at position 1, accepts this one frame, wraps to position 0 and counts a
  completed cycle, and the enemy is confirmed in that same tick.
\<close>

theorem confirmed_after_one_tracked_frame:
  "(case injectFrames [idlePose, idlePose, idlePose, idlePose] (newGame [lateArmEnemy]) of
      Inl err \<Rightarrow> False
    | Inr g \<Rightarrow> currentMatchingEnemy (player g) = None \<and> confirmedMatchEnemy (player g) = None \<and>
        sequenceMatchers (player g) ''enemy3'' = None) \<and>
   (case injectFrames [idlePose, idlePose, idlePose, idlePose, leftArmPose] (newGame [lateArmEnemy]) of
      Inl err \<Rightarrow> False
    | Inr g \<Rightarrow> confirmedMatchEnemy (player g) = Some lateArmEnemy \<and>
        (case sequenceMatchers (player g) ''enemy3'' of
           None \<Rightarrow> False
         | Some m \<Rightarrow> sequenceLength m = 2 \<and> matchPosition m = 0 \<and> cyclesCompleted m = 1 \<and>
             isFullCycleComplete m \<and>
             confidenceScore m = CONFIDENCE_MATCH \<and> lastMatchFrame m = Frame 5))"
  by code_simp

end
